theory Spec2Isabelle
  imports Complex_Main "HOL-Library.Log_Nat" "HOL-Library.Product_Lexorder"
begin

section \<open>Multi-head latent attention: split heuristic, stage-2 reducer, entry points\<close>

text \<open>
  A shallow embedding of \<^verbatim>\<open>aiter/mla.py\<close>. Python integers are \<open>int\<close>. Python floats are
  binary64 values: every operation of the split-count heuristic is rounded to nearest,
  ties to even. The float32 values of the Triton kernel are modelled in exact arithmetic
  (no rounding, no overflow). Every \<^verbatim>\<open>assert\<close>, division by zero, overflow of a
  conversion to float and use of an unbound name is a branch that returns an error
  value.
\<close>

subsection \<open>Errors\<close>

text \<open>
  The exceptions the three Python functions can raise. The two assertion failures carry
  the offending value, as the f-strings of the source do:
  \<^verbatim>\<open>assert logit_cap <= 0, f"{logit_cap=} is not support yet"\<close> and
  \<^verbatim>\<open>assert nhead in get_mgc, f"{nhead=} not supported"\<close>.
\<close>

datatype py_error =
    LogitCapNotSupported real
  | NheadNotSupported int
  | ZeroDivisionError
  | OverflowError
  | ValueError
  | UnboundLocalError
  | RuntimeError

text \<open>The spec's error class "unsupported configuration": either assertion failure.\<close>

fun unsupported_configuration :: "py_error \<Rightarrow> bool" where
  "unsupported_configuration (LogitCapNotSupported c) = True"
| "unsupported_configuration (NheadNotSupported n) = True"
| "unsupported_configuration e = False"

subsection \<open>Floating-point values\<close>

text \<open>
  A floating-point value is a real number or one of the three special values of IEEE
  754. The sign of zero is not modelled: it shows only in a division by zero, which
  Python raises as an exception and the kernel reaches only as \<open>0 / 0\<close>.
\<close>

datatype fp = NaN | NegInf | Fin real | PosInf

fun fp_sign :: "fp \<Rightarrow> int" where
  "fp_sign NaN = 0"
| "fp_sign NegInf = - 1"
| "fp_sign PosInf = 1"
| "fp_sign (Fin a) = (if 0 < a then 1 else if a < 0 then - 1 else 0)"

definition inf_of_sign :: "int \<Rightarrow> fp" where
  "inf_of_sign s = (if s = 0 then NaN else if 0 < s then PosInf else NegInf)"

fun fp_neg :: "fp \<Rightarrow> fp" where
  "fp_neg NaN = NaN"
| "fp_neg NegInf = PosInf"
| "fp_neg PosInf = NegInf"
| "fp_neg (Fin a) = Fin (- a)"

text \<open>The exact results of the operations, before rounding.\<close>

fun fp_add :: "fp \<Rightarrow> fp \<Rightarrow> fp" where
  "fp_add NaN b = NaN"
| "fp_add a NaN = NaN"
| "fp_add (Fin a) (Fin b) = Fin (a + b)"
| "fp_add PosInf NegInf = NaN"
| "fp_add NegInf PosInf = NaN"
| "fp_add PosInf b = PosInf"
| "fp_add a PosInf = PosInf"
| "fp_add NegInf b = NegInf"
| "fp_add a NegInf = NegInf"

definition fp_sub :: "fp \<Rightarrow> fp \<Rightarrow> fp" where
  "fp_sub a b = fp_add a (fp_neg b)"

fun fp_mul :: "fp \<Rightarrow> fp \<Rightarrow> fp" where
  "fp_mul NaN b = NaN"
| "fp_mul a NaN = NaN"
| "fp_mul (Fin a) (Fin b) = Fin (a * b)"
| "fp_mul a b = inf_of_sign (fp_sign a * fp_sign b)"

text \<open>
  Division: \<open>0 / 0\<close> and \<open>\<plusminus>\<infinity> / \<plusminus>\<infinity>\<close> are NaN, a non-zero finite value over zero is
  an infinity, a finite value over an infinity is zero.
\<close>

fun fp_div :: "fp \<Rightarrow> fp \<Rightarrow> fp" where
  "fp_div NaN b = NaN"
| "fp_div a NaN = NaN"
| "fp_div (Fin a) (Fin b) = (if b = 0 then inf_of_sign (fp_sign (Fin a)) else Fin (a / b))"
| "fp_div (Fin a) b = Fin 0"
| "fp_div a (Fin b) = inf_of_sign (fp_sign a * (if b < 0 then - 1 else 1))"
| "fp_div a b = NaN"

text \<open>The comparison \<^verbatim>\<open><\<close>: false whenever an operand is NaN.\<close>

fun fp_less :: "fp \<Rightarrow> fp \<Rightarrow> bool" where
  "fp_less NaN b = False"
| "fp_less a NaN = False"
| "fp_less (Fin a) (Fin b) = (a < b)"
| "fp_less a NegInf = False"
| "fp_less NegInf b = True"
| "fp_less PosInf b = False"
| "fp_less a PosInf = True"

text \<open>
  A binary format: the number of bits of the significand, the exponent of the smallest
  positive (subnormal) value, and the exponent of the first power of two that is too
  large for the format.
\<close>

record fp_format =
  precision :: nat
  exp_quantum :: int
  exp_overflow :: int

definition binary32 :: fp_format where
  "binary32 = \<lparr>precision = 24, exp_quantum = - 149, exp_overflow = 128\<rparr>"

definition binary64 :: fp_format where
  "binary64 = \<lparr>precision = 53, exp_quantum = - 1074, exp_overflow = 1024\<rparr>"

text \<open>
  \<open>floor_log2 x\<close> is the exponent of a positive \<open>x\<close>, the integer \<open>k\<close> with
  \<open>2\<^sup>k \<le> x < 2\<^sup>k\<^sup>+\<^sup>1\<close>, computed from the number of bits of an integer.
\<close>

definition floor_log2 :: "real \<Rightarrow> int" where
  "floor_log2 x = (if 1 \<le> x then bitlen \<lfloor>x\<rfloor> - 1 else - bitlen (\<lceil>1 / x\<rceil> - 1))"

text \<open>Rounding to the nearest integer, a tie to the even one.\<close>

definition nearest_even :: "int \<Rightarrow> real \<Rightarrow> int" where
  "nearest_even f r =
     (if r < 1 / 2 then f else if 1 / 2 < r then f + 1 else if even f then f else f + 1)"

definition round_half_even :: "real \<Rightarrow> int" where
  "round_half_even t = nearest_even \<lfloor>t\<rfloor> (t - of_int \<lfloor>t\<rfloor>)"

text \<open>
  Rounding a real to a format, to nearest and ties to even: the value is rounded to a
  multiple of \<open>2\<^sup>e\<close>, where \<open>e\<close> is the exponent of the last bit of the significand (not
  below the exponent of the subnormal values), and a result of magnitude
  \<open>2 powi exp_overflow\<close> or more becomes an infinity.
\<close>

definition fp_quantize :: "int \<Rightarrow> real \<Rightarrow> real" where
  "fp_quantize e r = of_int (round_half_even (r / 2 powi e)) * 2 powi e"

definition fp_overflow :: "fp_format \<Rightarrow> real \<Rightarrow> fp" where
  "fp_overflow fmt y =
     (if 2 powi exp_overflow fmt \<le> \<bar>y\<bar> then (if 0 < y then PosInf else NegInf) else Fin y)"

definition fp_round :: "fp_format \<Rightarrow> real \<Rightarrow> fp" where
  "fp_round fmt r =
     (if r = 0 then Fin 0
      else fp_overflow fmt
             (fp_quantize (max (floor_log2 \<bar>r\<bar> - (int (precision fmt) - 1)) (exp_quantum fmt)) r))"

text \<open>The rounding of an exact result: the special values stay as they are.\<close>

fun fp_rounded :: "fp_format \<Rightarrow> fp \<Rightarrow> fp" where
  "fp_rounded fmt (Fin r) = fp_round fmt r"
| "fp_rounded fmt x = x"

subsection \<open>The split-count heuristic \<^verbatim>\<open>get_meta_param\<close>\<close>

text \<open>
  The operations of Python on \<^verbatim>\<open>int\<close> and \<^verbatim>\<open>float\<close> that the function uses. A
  \<^verbatim>\<open>float\<close> is a binary64 value. The true division of two integers is rounded
  correctly and raises \<^verbatim>\<open>ZeroDivisionError\<close> on a zero divisor and \<^verbatim>\<open>OverflowError\<close>
  when the quotient is too large for a float; so does the conversion of an integer that
  is multiplied with a float. The product and the sum of two floats overflow to an
  infinity without an exception, the division of two floats raises \<^verbatim>\<open>ZeroDivisionError\<close>
  on a zero divisor. The floor division \<^verbatim>\<open>//\<close> of integers raises it as well.
\<close>

definition py_floordiv :: "int \<Rightarrow> int \<Rightarrow> py_error + int" where
  "py_floordiv a b = (if b = 0 then Inl ZeroDivisionError else Inr (a div b))"

definition py_float_of_int :: "int \<Rightarrow> py_error + fp" where
  "py_float_of_int a =
     (case fp_round binary64 (of_int a) of Fin y \<Rightarrow> Inr (Fin y) | _ \<Rightarrow> Inl OverflowError)"

definition py_int_truediv :: "int \<Rightarrow> int \<Rightarrow> py_error + fp" where
  "py_int_truediv a b =
     (if b = 0 then Inl ZeroDivisionError
      else case fp_round binary64 (of_int a / of_int b) of
             Fin y \<Rightarrow> Inr (Fin y)
           | _ \<Rightarrow> Inl OverflowError)"

definition py_float_mul :: "fp \<Rightarrow> fp \<Rightarrow> fp" where
  "py_float_mul a b = fp_rounded binary64 (fp_mul a b)"

definition py_float_add :: "fp \<Rightarrow> fp \<Rightarrow> fp" where
  "py_float_add a b = fp_rounded binary64 (fp_add a b)"

definition py_float_truediv :: "fp \<Rightarrow> fp \<Rightarrow> py_error + fp" where
  "py_float_truediv a b =
     (if b = Fin 0 then Inl ZeroDivisionError else Inr (fp_rounded binary64 (fp_div a b)))"

text \<open>
  \<^verbatim>\<open>overhead = 84.1\<close>: the literal denotes the float nearest to \<open>84.1\<close>.
\<close>

definition overhead :: fp where
  "overhead = fp_round binary64 (841 / 10)"

text \<open>
  One element of the list comprehension, for the candidate \<open>i\<close>:
  \<^verbatim>\<open>(bs * i / ((bs * i + cu_num - 1) // cu_num * cu_num) * avg_kv / (avg_kv + overhead * i), i)\<close>.
  The operands are evaluated from left to right, so the first operation that raises
  decides the exception.
\<close>

definition split_score :: "int \<Rightarrow> int \<Rightarrow> fp \<Rightarrow> int \<Rightarrow> py_error + (fp \<times> int)" where
  "split_score cu_num bs avg_kv i =
     (case py_floordiv (bs * i + cu_num - 1) cu_num of
        Inl e \<Rightarrow> Inl e
      | Inr c \<Rightarrow>
          (case py_int_truediv (bs * i) (c * cu_num) of
             Inl e \<Rightarrow> Inl e
           | Inr u \<Rightarrow>
               (case py_float_of_int i of
                  Inl e \<Rightarrow> Inl e
                | Inr fi \<Rightarrow>
                    (case py_float_truediv (py_float_mul u avg_kv)
                            (py_float_add avg_kv (py_float_mul overhead fi)) of
                       Inl e \<Rightarrow> Inl e
                     | Inr s \<Rightarrow> Inr (s, i)))))"

text \<open>The comprehension stops at the first element that raises.\<close>

fun comprehension :: "('a \<Rightarrow> py_error + 'b) \<Rightarrow> 'a list \<Rightarrow> py_error + 'b list" where
  "comprehension f [] = Inr []"
| "comprehension f (x # xs) =
     (case f x of
        Inl e \<Rightarrow> Inl e
      | Inr y \<Rightarrow> (case comprehension f xs of Inl e \<Rightarrow> Inl e | Inr ys \<Rightarrow> Inr (y # ys)))"

text \<open>
  \<^verbatim>\<open>sorted(tmp, key=lambda x: x[0], reverse=True)\<close>: Python's sort is stable, and with
  \<^verbatim>\<open>reverse=True\<close> elements of equal key keep their original order. That is the stable
  ascending sort on a key that reverses the order of the floats: \<open>+\<infinity>\<close> first, the finite
  values from large to small, then \<open>-\<infinity>\<close>. A score is never NaN; the key puts NaN last.
\<close>

fun descending_key :: "fp \<Rightarrow> nat \<times> real" where
  "descending_key PosInf = (0, 0)"
| "descending_key (Fin a) = (1, - a)"
| "descending_key NegInf = (2, 0)"
| "descending_key NaN = (3, 0)"

definition sorted_reverse :: "(fp \<times> int) list \<Rightarrow> (fp \<times> int) list" where
  "sorted_reverse tmp = sort_key (\<lambda>x. descending_key (fst x)) tmp"

text \<open>
  Lines 87 to 103: the resolution of \<^verbatim>\<open>num_kv_splits\<close>. \<open>cu_num\<close> is the value of
  \<^verbatim>\<open>get_cu_num()\<close>, a function of the hardware that is not part of this file.
\<close>

definition resolve_num_kv_splits :: "int \<Rightarrow> int option \<Rightarrow> int \<Rightarrow> int \<Rightarrow> py_error + int" where
  "resolve_num_kv_splits cu_num num_kv_splits bs total_kv =
     (case num_kv_splits of
        Some n \<Rightarrow> Inr n
      | None \<Rightarrow>
          (case py_int_truediv total_kv bs of
             Inl e \<Rightarrow> Inl e
           | Inr avg_kv \<Rightarrow>
               (case comprehension (split_score cu_num bs avg_kv) [1..16] of
                  Inl e \<Rightarrow> Inl e
                | Inr tmp \<Rightarrow> Inr (snd (hd (sorted_reverse tmp))))))"

text \<open>
  \<^verbatim>\<open>get_mgc = {16: 16, 128: 16}\<close>
\<close>

definition get_mgc :: "int \<rightharpoonup> int" where
  "get_mgc = [16 \<mapsto> 16, 128 \<mapsto> 16]"

text \<open>
  The whole function. The \<^verbatim>\<open>lru_cache\<close> decorator memoises a function of its arguments
  only and is left out.
\<close>

definition get_meta_param ::
  "int \<Rightarrow> int option \<Rightarrow> int \<Rightarrow> int \<Rightarrow> int \<Rightarrow> int \<Rightarrow> py_error + (int \<times> int)" where
  "get_meta_param cu_num num_kv_splits bs total_kv nhead max_seqlen_q =
     (case resolve_num_kv_splits cu_num num_kv_splits bs total_kv of
        Inl e \<Rightarrow> Inl e
      | Inr n \<Rightarrow>
          (case get_mgc nhead of
             None \<Rightarrow> Inl (NheadNotSupported nhead)
           | Some mgc \<Rightarrow>
               Inr (n, if max_seqlen_q = 1 \<and> nhead = 16 then 64 else mgc)))"

text \<open>
  The score of candidate \<open>i\<close> in the words of the specification:
  \<open>(batch_size * i / ceil_to_compute_unit_multiple (batch_size * i)) * avg_kv /
   (avg_kv + 84.1 * i)\<close> with \<open>avg_kv = total_kv / batch_size\<close>, first over the reals,
  then with the constant and the result of every operation rounded to binary64.
\<close>

definition ceil_to_compute_unit_multiple :: "int \<Rightarrow> int \<Rightarrow> int" where
  "ceil_to_compute_unit_multiple cu_num x = (x + cu_num - 1) div cu_num * cu_num"

definition spec_score :: "int \<Rightarrow> int \<Rightarrow> int \<Rightarrow> int \<Rightarrow> real" where
  "spec_score cu_num batch_size total_kv i =
     (of_int (batch_size * i) / of_int (ceil_to_compute_unit_multiple cu_num (batch_size * i)))
       * (of_int total_kv / of_int batch_size)
       / (of_int total_kv / of_int batch_size + 841 / 10 * of_int i)"

definition float64_score :: "int \<Rightarrow> int \<Rightarrow> int \<Rightarrow> int \<Rightarrow> fp" where
  "float64_score cu_num batch_size total_kv i =
     (let avg_kv = fp_round binary64 (of_int total_kv / of_int batch_size);
          utilization = fp_round binary64
            (of_int (batch_size * i) / of_int (ceil_to_compute_unit_multiple cu_num (batch_size * i)))
      in fp_rounded binary64
           (fp_div (fp_rounded binary64 (fp_mul utilization avg_kv))
              (fp_rounded binary64
                 (fp_add avg_kv
                    (fp_rounded binary64
                       (fp_mul (fp_round binary64 (841 / 10)) (fp_round binary64 (of_int i))))))))"

text \<open>
  The default of \<^verbatim>\<open>sm_scale\<close>, \<^verbatim>\<open>1.0 / (qk_head_dim**0.5)\<close>, is only handed on to the
  stage-1 kernel. It is kept as an exact real; the division raises
  \<^verbatim>\<open>ZeroDivisionError\<close> on a zero divisor.
\<close>

definition py_truediv :: "real \<Rightarrow> real \<Rightarrow> py_error + real" where
  "py_truediv a b = (if b = 0 then Inl ZeroDivisionError else Inr (a / b))"

subsection \<open>Kernel arithmetic\<close>

text \<open>
  The float32 values of the Triton kernel, with the special values that the kernel can
  reach (\<^verbatim>\<open>e_max = -float("inf")\<close>, and \<^verbatim>\<open>acc / e_sum\<close> with \<^verbatim>\<open>e_sum = 0.0\<close>). Finite values
  are computed exactly: rounding and overflow are not modelled.
\<close>

text \<open>\<^verbatim>\<open>tl.exp\<close>\<close>

fun fp_exp :: "fp \<Rightarrow> fp" where
  "fp_exp NaN = NaN"
| "fp_exp NegInf = Fin 0"
| "fp_exp PosInf = PosInf"
| "fp_exp (Fin a) = Fin (exp a)"

text \<open>
  \<^verbatim>\<open>tl.maximum\<close> with its default NaN handling: when one operand is NaN the other is
  returned.
\<close>

fun fp_max :: "fp \<Rightarrow> fp \<Rightarrow> fp" where
  "fp_max NaN b = b"
| "fp_max a NaN = a"
| "fp_max PosInf b = PosInf"
| "fp_max a PosInf = PosInf"
| "fp_max NegInf b = b"
| "fp_max a NegInf = a"
| "fp_max (Fin a) (Fin b) = Fin (max a b)"

subsection \<open>The stage-2 kernel \<^verbatim>\<open>_fwd_kernel_stage2_asm\<close>\<close>

text \<open>
  A pointer argument of the kernel is the memory behind it, a function from element
  offsets to values. Offsets and lengths are the kernel's 32-bit integers, modelled as
  \<open>int\<close> without wrap-around.
\<close>

type_synonym mem = "int \<Rightarrow> fp"
type_synonym int_mem = "int \<Rightarrow> int"

text \<open>
  \<^verbatim>\<open>tl.cdiv(x, div)\<close> is \<^verbatim>\<open>(x + div - 1) // div\<close>.
\<close>

definition cdiv :: "int \<Rightarrow> int \<Rightarrow> int" where
  "cdiv x d = (x + d - 1) div d"

text \<open>
  \<^verbatim>\<open>tl.load(ptr + offs, mask=mask, other=0.0)\<close>: a lane whose mask is false is not read
  and yields \<open>0.0\<close>. \<open>loaded_lanes\<close> lists the offsets that are read.
\<close>

definition tl_load :: "mem \<Rightarrow> int list \<Rightarrow> bool list \<Rightarrow> fp list" where
  "tl_load m offs msk = map (\<lambda>(a, k). if k then m a else Fin 0) (zip offs msk)"

definition loaded_lanes :: "int list \<Rightarrow> bool list \<Rightarrow> int list" where
  "loaded_lanes offs msk = map fst (filter snd (zip offs msk))"

text \<open>
  \<^verbatim>\<open>tl.store(ptr + offs, value, mask=mask)\<close>: the lanes whose mask is true are written.
\<close>

definition tl_store :: "mem \<Rightarrow> int list \<Rightarrow> fp list \<Rightarrow> bool list \<Rightarrow> mem" where
  "tl_store m offs vals msk =
     fold (\<lambda>(a, v, k) m'. if k then m'(a := v) else m') (zip offs (zip vals msk)) m"

text \<open>
  The variables the loop over the splits carries, and the offsets the loop has loaded
  from \<^verbatim>\<open>Mid_O\<close> and \<^verbatim>\<open>Mid_lse\<close> so far.
\<close>

record split_state =
  e_sum :: fp
  e_max :: fp
  acc :: "fp list"
  loaded_Mid_O :: "int list"
  loaded_Mid_lse :: "int list"

text \<open>
  Lines 57 to 59, for the split \<open>split_kv_id\<close> of a sequence of \<open>cur_kv_seq_len\<close> keys:
  \<^verbatim>\<open>kv_len_per_split = tl.maximum(mgc, tl.cdiv(cur_kv_seq_len, NUM_KV_SPLITS))\<close>,
  \<^verbatim>\<open>split_kv_start = kv_len_per_split * split_kv_id\<close> and
  \<^verbatim>\<open>split_kv_end = tl.minimum(split_kv_start + kv_len_per_split, cur_kv_seq_len)\<close>.
\<close>

definition kv_len_per_split :: "int \<Rightarrow> int \<Rightarrow> int \<Rightarrow> int" where
  "kv_len_per_split mgc cur_kv_seq_len NUM_KV_SPLITS = max mgc (cdiv cur_kv_seq_len NUM_KV_SPLITS)"

definition split_kv_start :: "int \<Rightarrow> int \<Rightarrow> int \<Rightarrow> int \<Rightarrow> int" where
  "split_kv_start mgc cur_kv_seq_len NUM_KV_SPLITS split_kv_id =
     kv_len_per_split mgc cur_kv_seq_len NUM_KV_SPLITS * split_kv_id"

definition split_kv_end :: "int \<Rightarrow> int \<Rightarrow> int \<Rightarrow> int \<Rightarrow> int" where
  "split_kv_end mgc cur_kv_seq_len NUM_KV_SPLITS split_kv_id =
     min (split_kv_start mgc cur_kv_seq_len NUM_KV_SPLITS split_kv_id
            + kv_len_per_split mgc cur_kv_seq_len NUM_KV_SPLITS) cur_kv_seq_len"

text \<open>One iteration of \<^verbatim>\<open>for split_kv_id in range(0, NUM_KV_SPLITS)\<close> (lines 57 to 76).\<close>

definition stage2_split ::
  "mem \<Rightarrow> mem \<Rightarrow> int \<Rightarrow> int \<Rightarrow> int \<Rightarrow> int \<Rightarrow> int \<Rightarrow> bool list \<Rightarrow> int list \<Rightarrow> int
     \<Rightarrow> int \<Rightarrow> split_state \<Rightarrow> split_state" where
  "stage2_split Mid_O Mid_lse stride_mid_os NUM_KV_SPLITS Lv mgc cur_kv_seq_len mask_d offs_v
       offs_logic split_kv_id st =
     (if split_kv_end mgc cur_kv_seq_len NUM_KV_SPLITS split_kv_id
           > split_kv_start mgc cur_kv_seq_len NUM_KV_SPLITS split_kv_id then
        (let tv_offs = map (\<lambda>a. a + split_kv_id * stride_mid_os * Lv) offs_v;
             tv = tl_load Mid_O tv_offs mask_d;
             tlogic = Mid_lse (offs_logic + split_kv_id * stride_mid_os);
             n_e_max = fp_max tlogic (e_max st);
             old_scale = fp_exp (fp_sub (e_max st) n_e_max);
             acc1 = map (\<lambda>a. fp_mul a old_scale) (acc st);
             exp_logic = fp_exp (fp_sub tlogic n_e_max);
             acc2 = map2 fp_add acc1 (map (fp_mul exp_logic) tv)
         in \<lparr>e_sum = fp_add (fp_mul (e_sum st) old_scale) exp_logic,
             e_max = n_e_max,
             acc = acc2,
             loaded_Mid_O = loaded_Mid_O st @ loaded_lanes tv_offs mask_d,
             loaded_Mid_lse = loaded_Mid_lse st @ [offs_logic + split_kv_id * stride_mid_os]\<rparr>)
      else st)"

text \<open>
  Lines 46 to 76: the initial values and the loop over the splits, for the query row
  \<open>cur_qo\<close>, the head \<open>cur_head\<close> and a sequence of \<open>cur_kv_seq_len\<close> keys.
\<close>

definition stage2_reduce ::
  "mem \<Rightarrow> mem \<Rightarrow> int \<Rightarrow> int \<Rightarrow> int \<Rightarrow> int \<Rightarrow> int \<Rightarrow> int \<Rightarrow> int \<Rightarrow> int \<Rightarrow> int \<Rightarrow> int \<Rightarrow> split_state" where
  "stage2_reduce Mid_O Mid_lse stride_mid_ob stride_mid_oh stride_mid_os NUM_KV_SPLITS BLOCK_DV Lv
       mgc cur_qo cur_head cur_kv_seq_len =
     (let offs_d = [0..BLOCK_DV - 1];
          mask_d = map (\<lambda>d. d < Lv) offs_d;
          init = \<lparr>e_sum = Fin 0, e_max = NegInf, acc = map (\<lambda>d. Fin 0) offs_d,
                  loaded_Mid_O = [], loaded_Mid_lse = []\<rparr>;
          offs_v = map (\<lambda>d. (cur_qo * stride_mid_ob + cur_head * stride_mid_oh) * Lv + d) offs_d;
          offs_logic = cur_qo * stride_mid_ob + cur_head * stride_mid_oh
      in fold (stage2_split Mid_O Mid_lse stride_mid_os NUM_KV_SPLITS Lv mgc cur_kv_seq_len
                 mask_d offs_v offs_logic)
           (map int [0..<nat NUM_KV_SPLITS]) init)"

text \<open>
  What one program of the grid does when it does not return early: the memory behind
  \<^verbatim>\<open>O\<close> after its store, the offsets it stored to, and the offsets it loaded.
\<close>

record program_effect =
  out_mem :: mem
  stored_Out :: "int list"
  loads_Mid_O :: "int list"
  loads_Mid_lse :: "int list"

text \<open>
  The kernel, for the program with ids \<open>(cur_batch, cur_head, cur_qo_offs)\<close>. The result
  \<open>None\<close> is the early \<^verbatim>\<open>return\<close> of line 43. The pointer \<^verbatim>\<open>O\<close> is called \<open>Out\<close>.
\<close>

definition fwd_kernel_stage2_asm ::
  "mem \<Rightarrow> mem \<Rightarrow> mem \<Rightarrow> int_mem \<Rightarrow> int_mem \<Rightarrow> int \<Rightarrow> int \<Rightarrow> int \<Rightarrow> int \<Rightarrow> int \<Rightarrow> int \<Rightarrow> int \<Rightarrow> int
     \<Rightarrow> int \<Rightarrow> int \<Rightarrow> int \<Rightarrow> int \<Rightarrow> int \<Rightarrow> int \<Rightarrow> int \<Rightarrow> program_effect option" where
  "fwd_kernel_stage2_asm Mid_O Mid_lse Out qo_indptr kv_indptr stride_mid_ob stride_mid_oh
       stride_mid_os stride_obs stride_oh bs nheads max_seqlen_q NUM_KV_SPLITS BLOCK_DV Lv mgc
       cur_batch cur_head cur_qo_offs =
     (let cur_qo_start = qo_indptr cur_batch;
          cur_qo_end = qo_indptr (cur_batch + 1);
          cur_qo = cur_qo_start + cur_qo_offs
      in if cur_qo > cur_qo_end then None
         else
           (let cur_kv_seq_len = kv_indptr (cur_batch + 1) - kv_indptr cur_batch;
                offs_d = [0..BLOCK_DV - 1];
                mask_d = map (\<lambda>d. d < Lv) offs_d;
                st = stage2_reduce Mid_O Mid_lse stride_mid_ob stride_mid_oh stride_mid_os
                       NUM_KV_SPLITS BLOCK_DV Lv mgc cur_qo cur_head cur_kv_seq_len;
                out_offs = map (\<lambda>d. cur_qo * stride_obs + cur_head * stride_oh + d) offs_d
            in Some \<lparr>out_mem = tl_store Out out_offs (map (\<lambda>a. fp_div a (e_sum st)) (acc st)) mask_d,
                     stored_Out = loaded_lanes out_offs mask_d,
                     loads_Mid_O = loaded_Mid_O st,
                     loads_Mid_lse = loaded_Mid_lse st\<rparr>))"

subsection \<open>Reference attention\<close>







subsection \<open>Tensors and buffers\<close>

text \<open>
  A float tensor is a view of a buffer: the buffer's identifier and the shape of the
  view. Tensors are contiguous, so the strides follow from the shape; element types are
  not modelled. The world is the content of every buffer and the number of buffers
  allocated so far. An index tensor is one-dimensional and never written.
\<close>

record tensor =
  buf :: nat
  shape :: "nat list"

record world =
  heap :: "nat \<Rightarrow> mem"
  next_buf :: nat

record int_tensor =
  elems :: int_mem
  shape0 :: nat

text \<open>\<^verbatim>\<open>t.stride(i)\<close> of a contiguous tensor.\<close>

definition stride :: "tensor \<Rightarrow> nat \<Rightarrow> nat" where
  "stride t i = prod_list (map (max 1) (drop (Suc i) (shape t)))"

text \<open>
  \<^verbatim>\<open>torch.empty(shape)\<close> allocates a fresh buffer and leaves its content as it is; a
  negative dimension raises \<^verbatim>\<open>RuntimeError\<close>.
\<close>

definition torch_empty :: "world \<Rightarrow> int list \<Rightarrow> world \<times> (py_error + tensor)" where
  "torch_empty w sh =
     (if \<exists>d \<in> set sh. d < 0 then (w, Inl RuntimeError)
      else (w\<lparr>next_buf := Suc (next_buf w)\<rparr>, Inr \<lparr>buf = next_buf w, shape = map nat sh\<rparr>))"

text \<open>
  \<^verbatim>\<open>t.view(shape)\<close>: the same buffer under another shape. Every view of the source keeps
  the number of elements.
\<close>

definition view :: "tensor \<Rightarrow> nat list \<Rightarrow> tensor" where
  "view t sh = \<lparr>buf = buf t, shape = sh\<rparr>"

text \<open>
  \<^verbatim>\<open>triton.next_power_of_2(n)\<close>: the smallest power of two that is at least \<open>n\<close>, and \<open>0\<close>
  for \<open>n = 0\<close>.
\<close>

function power_of_2_from :: "nat \<Rightarrow> nat \<Rightarrow> nat" where
  "power_of_2_from p n = (if n \<le> p \<or> p = 0 then p else power_of_2_from (2 * p) n)"
  by pat_completeness auto
termination
  by (relation "measure (\<lambda>(p, n). n - p)") auto

declare power_of_2_from.simps [simp del]

definition next_power_of_2 :: "nat \<Rightarrow> nat" where
  "next_power_of_2 n = (if n = 0 then 0 else power_of_2_from 1 n)"

subsection \<open>The entry points\<close>

text \<open>
  Modelled from the spec: \<^verbatim>\<open>aiter.mla_decode_stage1_asm_fwd\<close> and
  \<^verbatim>\<open>aiter.mla_prefill_asm_fwd\<close> are compiled kernels that are not among the source
  files. The specification says of them: no return value, the kernel populates its two
  output tensors in place. Such a kernel is a parameter of the model: a function of the
  heap and of its arguments that gives the new content of the buffer of \<^verbatim>\<open>logits\<close> and
  of the buffer of \<^verbatim>\<open>attn_lse\<close>.
\<close>

type_synonym stage1_kernel =
  "(nat \<Rightarrow> mem) \<Rightarrow> tensor \<Rightarrow> tensor \<Rightarrow> int_tensor \<Rightarrow> int_tensor \<Rightarrow> int_tensor \<Rightarrow> int_tensor \<Rightarrow> int
     \<Rightarrow> real \<Rightarrow> tensor \<Rightarrow> tensor \<Rightarrow> mem \<times> mem"

definition call_stage1 ::
  "stage1_kernel \<Rightarrow> world \<Rightarrow> tensor \<Rightarrow> tensor \<Rightarrow> int_tensor \<Rightarrow> int_tensor \<Rightarrow> int_tensor \<Rightarrow> int_tensor
     \<Rightarrow> int \<Rightarrow> real \<Rightarrow> tensor \<Rightarrow> tensor \<Rightarrow> world" where
  "call_stage1 asm_fwd w q kv_buffer qo_indptr kv_indptr kv_indices kv_last_page_lens max_seqlen_q
       sm_scale logits attn_lse =
     (let r = asm_fwd (heap w) q kv_buffer qo_indptr kv_indptr kv_indices kv_last_page_lens
                max_seqlen_q sm_scale logits attn_lse
      in w\<lparr>heap := (heap w)(buf logits := fst r, buf attn_lse := snd r)\<rparr>)"

text \<open>
  \<^verbatim>\<open>_fwd_kernel_stage2_asm[grid](...)\<close> with \<^verbatim>\<open>grid = (bs, nhead, max_seqlen_q)\<close>: one
  program for every triple of ids. The programs of a grid run concurrently; none of them
  reads \<^verbatim>\<open>O\<close>, so they can interfere only where two of them store to the same offset.
  The model runs them one after the other, in the order of their ids.
\<close>

definition launch_stage2 ::
  "mem \<Rightarrow> mem \<Rightarrow> mem \<Rightarrow> int_mem \<Rightarrow> int_mem \<Rightarrow> int \<Rightarrow> int \<Rightarrow> int \<Rightarrow> int \<Rightarrow> int \<Rightarrow> int \<Rightarrow> int \<Rightarrow> int
     \<Rightarrow> int \<Rightarrow> int \<Rightarrow> int \<Rightarrow> int \<Rightarrow> mem" where
  "launch_stage2 Mid_O Mid_lse Out qo_indptr kv_indptr stride_mid_ob stride_mid_oh stride_mid_os
       stride_obs stride_oh bs nheads max_seqlen_q NUM_KV_SPLITS BLOCK_DV Lv mgc =
     fold (\<lambda>(cur_batch, cur_head, cur_qo_offs) m.
             case fwd_kernel_stage2_asm Mid_O Mid_lse m qo_indptr kv_indptr stride_mid_ob
                    stride_mid_oh stride_mid_os stride_obs stride_oh bs nheads max_seqlen_q
                    NUM_KV_SPLITS BLOCK_DV Lv mgc cur_batch cur_head cur_qo_offs of
               None \<Rightarrow> m
             | Some r \<Rightarrow> out_mem r)
       (List.product [0..bs - 1] (List.product [0..nheads - 1] [0..max_seqlen_q - 1])) Out"

text \<open>
  Lines 150 to 160 of \<^verbatim>\<open>mla_decode_fwd\<close>: where stage 1 writes its partial outputs. The
  caller's output tensor \<^verbatim>\<open>o\<close> is called \<open>out\<close>.
\<close>

definition decode_logits ::
  "world \<Rightarrow> tensor \<Rightarrow> nat \<Rightarrow> nat \<Rightarrow> nat \<Rightarrow> int \<Rightarrow> int \<Rightarrow> world \<times> (py_error + tensor)" where
  "decode_logits w out total_s nhead v_head_dim max_seqlen_q num_kv_splits =
     (if nhead = 16 \<and> max_seqlen_q = 1 then
        torch_empty w [int total_s, num_kv_splits, int nhead, int v_head_dim]
      else if nhead \<in> {16, 128} then
        (if num_kv_splits = 1 then
           (w, Inr (view out [total_s, nat num_kv_splits, nhead, v_head_dim]))
         else torch_empty w [int total_s, num_kv_splits, int nhead, int v_head_dim])
      else (w, Inl (NheadNotSupported (int nhead))))"

text \<open>
  Lines 162 to 207: the allocation of \<^verbatim>\<open>attn_lse\<close>, stage 1, and either the direct return
  or stage 2.
\<close>

definition decode_stages ::
  "stage1_kernel \<Rightarrow> world \<Rightarrow> tensor \<Rightarrow> tensor \<Rightarrow> tensor \<Rightarrow> int_tensor \<Rightarrow> int_tensor \<Rightarrow> int_tensor
     \<Rightarrow> int_tensor \<Rightarrow> int \<Rightarrow> real \<Rightarrow> nat \<Rightarrow> nat \<Rightarrow> nat \<Rightarrow> int \<Rightarrow> int \<Rightarrow> int \<Rightarrow> tensor
     \<Rightarrow> world \<times> (py_error + tensor \<times> tensor)" where
  "decode_stages stage1_asm_fwd w q kv_buffer out qo_indptr kv_indptr kv_indices kv_last_page_lens
       max_seqlen_q sm_scale total_s nhead v_head_dim bs num_kv_splits mgc logits =
     (case torch_empty w [int total_s, num_kv_splits, int nhead, 1] of
        (w1, Inl e) \<Rightarrow> (w1, Inl e)
      | (w1, Inr attn_lse) \<Rightarrow>
          (let w2 = call_stage1 stage1_asm_fwd w1 q kv_buffer qo_indptr kv_indptr kv_indices
                      kv_last_page_lens max_seqlen_q sm_scale logits attn_lse
           in if num_kv_splits = 1 \<and> \<not> (max_seqlen_q = 1 \<and> nhead = 16) then
                (w2, Inr (view logits [total_s, nhead, v_head_dim], attn_lse))
              else
                (let Lv = v_head_dim;
                     BLOCK_DV = next_power_of_2 Lv;
                     m = launch_stage2 (heap w2 (buf logits)) (heap w2 (buf attn_lse))
                           (heap w2 (buf out)) (elems qo_indptr) (elems kv_indptr)
                           (int (stride attn_lse 0)) (int (stride attn_lse 2))
                           (int (stride attn_lse 1)) (int (stride out 0)) (int (stride out 1))
                           bs (int nhead) max_seqlen_q num_kv_splits (int BLOCK_DV) (int Lv) mgc
                 in (w2\<lparr>heap := (heap w2)(buf out := m)\<rparr>, Inr (logits, attn_lse)))))"

text \<open>
  \<^verbatim>\<open>mla_decode_fwd\<close>. \<open>cu_num\<close> and \<open>stage1_asm_fwd\<close> stand for the hardware and the stage-1
  kernel, \<open>w\<close> is the world at the call. The result is the world after the call and
  either the exception raised or the pair returned. The logging set-up of lines 127 to
  131 and the device are left out.
\<close>

definition mla_decode_fwd ::
  "int \<Rightarrow> stage1_kernel \<Rightarrow> world \<Rightarrow> tensor \<Rightarrow> tensor \<Rightarrow> tensor \<Rightarrow> int_tensor \<Rightarrow> int_tensor
     \<Rightarrow> int_tensor \<Rightarrow> int_tensor \<Rightarrow> int \<Rightarrow> real option \<Rightarrow> real \<Rightarrow> int option
     \<Rightarrow> world \<times> (py_error + tensor \<times> tensor)" where
  "mla_decode_fwd cu_num stage1_asm_fwd w q kv_buffer out qo_indptr kv_indptr kv_indices kv_last_page_lens
       max_seqlen_q sm_scale logit_cap num_kv_splits =
     (if \<not> logit_cap \<le> 0 then (w, Inl (LogitCapNotSupported logit_cap))
      else
        (case shape kv_buffer of
           [num_page, page_size, nhead_kv, qk_head_dim] \<Rightarrow>
             (case (case sm_scale of
                      None \<Rightarrow> py_truediv 1 (sqrt (real qk_head_dim))
                    | Some s \<Rightarrow> Inr s) of
                Inl e \<Rightarrow> (w, Inl e)
              | Inr scale \<Rightarrow>
                  (case shape out of
                     [total_s, nhead, v_head_dim] \<Rightarrow>
                       (let bs = int (shape0 qo_indptr) - 1;
                            total_kv = int (shape0 kv_indices)
                        in case get_meta_param cu_num num_kv_splits bs total_kv (int nhead)
                                  max_seqlen_q of
                             Inl e \<Rightarrow> (w, Inl e)
                           | Inr (n, mgc) \<Rightarrow>
                               (case decode_logits w out total_s nhead v_head_dim max_seqlen_q n of
                                  (w0, Inl e) \<Rightarrow> (w0, Inl e)
                                | (w0, Inr logits) \<Rightarrow>
                                    decode_stages stage1_asm_fwd w0 q kv_buffer out qo_indptr kv_indptr
                                      kv_indices kv_last_page_lens max_seqlen_q scale total_s
                                      nhead v_head_dim bs n mgc logits))
                   | _ \<Rightarrow> (w, Inl ValueError)))
         | _ \<Rightarrow> (w, Inl ValueError)))"

text \<open>
  \<^verbatim>\<open>mla_prefill_fwd\<close>. The name \<^verbatim>\<open>qk_head_dim\<close> is assigned in line 228, so it is local
  to the function and unbound in line 226, where the default of \<^verbatim>\<open>sm_scale\<close> reads it. The
  argument \<^verbatim>\<open>num_kv_splits\<close> is overwritten with \<open>1\<close>.
\<close>

definition mla_prefill_fwd ::
  "stage1_kernel \<Rightarrow> world \<Rightarrow> tensor \<Rightarrow> tensor \<Rightarrow> tensor \<Rightarrow> int_tensor \<Rightarrow> int_tensor
     \<Rightarrow> int_tensor \<Rightarrow> int_tensor \<Rightarrow> int \<Rightarrow> real option \<Rightarrow> real \<Rightarrow> int option
     \<Rightarrow> world \<times> (py_error + tensor \<times> tensor)" where
  "mla_prefill_fwd prefill_asm_fwd w q kv_buffer out qo_indptr kv_indptr kv_indices kv_last_page_lens
       max_seqlen_q sm_scale logit_cap num_kv_splits =
     (if \<not> logit_cap \<le> 0 then (w, Inl (LogitCapNotSupported logit_cap))
      else
        (case sm_scale of
           None \<Rightarrow> (w, Inl UnboundLocalError)
         | Some scale \<Rightarrow>
             (case shape kv_buffer of
                [num_page, page_size, nhead_kv, qk_head_dim] \<Rightarrow>
                  (case shape out of
                     [bs, nhead, v_head_dim] \<Rightarrow>
                       (let logits = view out [bs, 1, nhead, v_head_dim]
                        in case torch_empty w [int bs, 1, int nhead, 1] of
                             (w1, Inl e) \<Rightarrow> (w1, Inl e)
                           | (w1, Inr attn_lse) \<Rightarrow>
                               (call_stage1 prefill_asm_fwd w1 q kv_buffer qo_indptr kv_indptr kv_indices
                                  kv_last_page_lens max_seqlen_q scale logits attn_lse,
                                Inr (view out [bs, nhead, v_head_dim], attn_lse)))
                   | _ \<Rightarrow> (w, Inl ValueError))
              | _ \<Rightarrow> (w, Inl ValueError))))"

section \<open>Properties\<close>

lemma get_mgc_cases:
  "get_mgc nhead = (if nhead = 16 \<or> nhead = 128 then Some 16 else None)"
  by (simp add: get_mgc_def)

subsection \<open>Sorting and the list comprehension\<close>

lemma hd_insort_key:
  "hd (insort_key f x ys) = (if ys = [] \<or> f x \<le> f (hd ys) then x else hd ys)"
  by (cases ys) auto

lemma sort_key_Nil_iff: "sort_key f xs = [] \<longleftrightarrow> xs = []"
  by (metis length_sort length_0_conv)

lemma hd_sort_key_first_min:
  "xs \<noteq> [] \<Longrightarrow>
   \<exists>k < length xs. hd (sort_key f xs) = xs ! k
      \<and> (\<forall>j < length xs. f (xs ! k) \<le> f (xs ! j))
      \<and> (\<forall>j < k. f (xs ! k) < f (xs ! j))"
proof (induction xs)
  case Nil
  then show ?case by simp
next
  case (Cons x xs)
  show ?case
  proof (cases "xs = []")
    case True
    then show ?thesis by simp
  next
    case False
    from Cons.IH [OF False] obtain k where k: "k < length xs"
      "hd (sort_key f xs) = xs ! k"
      "\<forall>j < length xs. f (xs ! k) \<le> f (xs ! j)"
      "\<forall>j < k. f (xs ! k) < f (xs ! j)" by blast
    have ne: "sort_key f xs \<noteq> []" using False by (simp add: sort_key_Nil_iff)
    have hd_eq: "hd (sort_key f (x # xs)) = (if f x \<le> f (xs ! k) then x else xs ! k)"
      using ne k(2) by (simp add: hd_insort_key)
    show ?thesis
    proof (cases "f x \<le> f (xs ! k)")
      case True
      have "\<forall>j < length (x # xs). f ((x # xs) ! 0) \<le> f ((x # xs) ! j)"
      proof (intro allI impI)
        fix j assume "j < length (x # xs)"
        then show "f ((x # xs) ! 0) \<le> f ((x # xs) ! j)"
          using True k(3) by (cases j) (auto intro: order_trans)
      qed
      then show ?thesis using True hd_eq by (intro exI [of _ 0]) simp
    next
      case False
      have a: "\<forall>j < length (x # xs). f ((x # xs) ! Suc k) \<le> f ((x # xs) ! j)"
      proof (intro allI impI)
        fix j assume "j < length (x # xs)"
        then show "f ((x # xs) ! Suc k) \<le> f ((x # xs) ! j)"
          using False k(3) by (cases j) auto
      qed
      have b: "\<forall>j < Suc k. f ((x # xs) ! Suc k) < f ((x # xs) ! j)"
      proof (intro allI impI)
        fix j assume "j < Suc k"
        then show "f ((x # xs) ! Suc k) < f ((x # xs) ! j)"
          using False k(4) by (cases j) auto
      qed
      show ?thesis using False hd_eq k(1) a b by (intro exI [of _ "Suc k"]) simp
    qed
  qed
qed

lemma comprehension_Inr:
  "comprehension f xs = Inr ys \<Longrightarrow>
   length ys = length xs \<and> (\<forall>k < length xs. f (xs ! k) = Inr (ys ! k))"
proof (induction xs arbitrary: ys)
  case Nil
  then show ?case by simp
next
  case (Cons x xs)
  from Cons.prems obtain y ys' where y: "f x = Inr y" "comprehension f xs = Inr ys'" "ys = y # ys'"
    by (auto split: sum.splits)
  from Cons.IH [OF y(2)] have ih: "length ys' = length xs"
    "\<forall>k < length xs. f (xs ! k) = Inr (ys' ! k)" by auto
  show ?case
  proof (intro conjI allI impI)
    show "length ys = length (x # xs)" using y(3) ih(1) by simp
  next
    fix k assume "k < length (x # xs)"
    then show "f ((x # xs) ! k) = Inr (ys ! k)"
      using y(1,3) ih(2) by (cases k) auto
  qed
qed

lemma comprehension_total:
  "(\<forall>x \<in> set xs. \<exists>y. f x = Inr y) \<Longrightarrow> \<exists>ys. comprehension f xs = Inr ys"
  by (induction xs) auto

subsection \<open>Rounding\<close>

lemma floor_log2_bounds:
  assumes "0 < x"
  shows "2 powi floor_log2 x \<le> x" and "x < 2 powi (floor_log2 x + 1)"
proof -
  have "2 powi floor_log2 x \<le> x \<and> x < 2 powi (floor_log2 x + 1)"
  proof (cases "1 \<le> x")
    case True
    define n where "n = \<lfloor>x\<rfloor>"
    have n: "0 < n" "of_int n \<le> x" "x < of_int n + 1" using True by (auto simp: n_def)
    from bitlen_bounds [OF n(1)] have b: "2 ^ nat (bitlen n - 1) \<le> n" "n < 2 ^ nat (bitlen n)" by auto
    have k: "1 \<le> bitlen n" using n(1) bitlen_nonneg [of n] bitlen_eq_zero_iff [of n] by linarith
    have fl: "floor_log2 x = bitlen n - 1" using True by (simp add: floor_log2_def n_def)
    have "(2::real) powi (bitlen n - 1) = 2 ^ nat (bitlen n - 1)" using k by (simp add: power_int_def)
    moreover have "(2::real) ^ nat (bitlen n - 1) \<le> of_int n"
      using b(1) by (metis of_int_le_iff of_int_numeral of_int_power)
    ultimately have lo: "2 powi floor_log2 x \<le> x" using n(2) fl by (metis order_trans)
    have "n + 1 \<le> 2 ^ nat (bitlen n)" using b(2) by simp
    then have "(of_int (n + 1) :: real) \<le> of_int (2 ^ nat (bitlen n))" by (rule of_int_le_iff [THEN iffD2])
    then have "x < 2 ^ nat (bitlen n)" using n(3) by simp
    moreover have "(2::real) powi (bitlen n - 1 + 1) = 2 ^ nat (bitlen n)"
      using k by (simp add: power_int_def)
    ultimately have "x < 2 powi (floor_log2 x + 1)" using fl by simp
    with lo show ?thesis by simp
  next
    case False
    define y where "y = 1 / x"
    define m where "m = \<lceil>y\<rceil> - 1"
    have y1: "1 < y" using False assms by (simp add: y_def)
    have m: "0 < m" "of_int m < y" "y \<le> of_int m + 1"
      using y1 by (auto simp: m_def) linarith+
    from bitlen_bounds [OF m(1)] have b: "2 ^ nat (bitlen m - 1) \<le> m" "m < 2 ^ nat (bitlen m)" by auto
    have k: "1 \<le> bitlen m" using m(1) bitlen_nonneg [of m] bitlen_eq_zero_iff [of m] by linarith
    have fl: "floor_log2 x = - bitlen m" using False by (simp add: floor_log2_def m_def y_def)
    have "m + 1 \<le> 2 ^ nat (bitlen m)" using b(2) by simp
    then have "(of_int (m + 1) :: real) \<le> of_int (2 ^ nat (bitlen m))" by (rule of_int_le_iff [THEN iffD2])
    then have "y \<le> 2 ^ nat (bitlen m)" using m(3) by simp
    then have "1 / 2 ^ nat (bitlen m) \<le> x"
      using assms by (simp add: y_def field_simps)
    moreover have "(2::real) powi (- bitlen m) = 1 / 2 ^ nat (bitlen m)"
      using k by (simp add: power_int_def field_simps)
    ultimately have lo: "2 powi floor_log2 x \<le> x" using fl by simp
    have "(2::real) ^ nat (bitlen m - 1) \<le> of_int m"
      using b(1) by (metis of_int_le_iff of_int_numeral of_int_power)
    then have "2 ^ nat (bitlen m - 1) < y" using m(2) by (rule order_le_less_trans)
    then have "x < 1 / 2 ^ nat (bitlen m - 1)"
      using assms by (simp add: y_def field_simps)
    moreover have "(2::real) powi (- bitlen m + 1) = 1 / 2 ^ nat (bitlen m - 1)"
    proof (cases "bitlen m = 1")
      case True
      then show ?thesis by simp
    next
      case False
      then have "- bitlen m + 1 < 0" using k by simp
      then show ?thesis by (simp add: power_int_def field_simps nat_diff_distrib)
    qed
    ultimately have "x < 2 powi (floor_log2 x + 1)" using fl by simp
    with lo show ?thesis by simp
  qed
  then show "2 powi floor_log2 x \<le> x" and "x < 2 powi (floor_log2 x + 1)" by simp_all
qed


lemma round_half_even_ge: "of_int n \<le> t \<Longrightarrow> n \<le> round_half_even t"
proof -
  assume "of_int n \<le> t"
  then have "n \<le> \<lfloor>t\<rfloor>" by (simp add: le_floor_iff)
  then show ?thesis by (simp add: round_half_even_def nearest_even_def)
qed

lemma round_half_even_le: "t \<le> of_int n \<Longrightarrow> round_half_even t \<le> n"
proof -
  assume a: "t \<le> of_int n"
  then have f: "\<lfloor>t\<rfloor> \<le> n" by (simp add: floor_le_iff)
  show ?thesis
  proof (cases "t - of_int \<lfloor>t\<rfloor> < 1 / 2")
    case True
    then show ?thesis using f by (simp add: round_half_even_def nearest_even_def)
  next
    case False
    then have "of_int \<lfloor>t\<rfloor> < t" by linarith
    then have "of_int \<lfloor>t\<rfloor> < (of_int n :: real)" using a by linarith
    then have "\<lfloor>t\<rfloor> < n" by simp
    then show ?thesis by (simp add: round_half_even_def nearest_even_def)
  qed
qed


lemma fp_round_not_NaN: "fp_round fmt r \<noteq> NaN"
  by (simp add: fp_round_def fp_overflow_def)

lemma fp_quantize_bound:
  assumes "r \<noteq> 0" and "floor_log2 \<bar>r\<bar> - (int p - 1) \<le> e"
  shows "\<bar>fp_quantize e r\<bar> \<le> 2 powi (int p + e)"
proof -
  have "\<bar>r\<bar> < 2 powi (floor_log2 \<bar>r\<bar> + 1)" using floor_log2_bounds(2) [of "\<bar>r\<bar>"] assms(1) by simp
  also have "\<dots> \<le> 2 powi (int p + e)" by (intro power_int_increasing) (use assms(2) in auto)
  finally have "\<bar>r\<bar> / 2 powi e < 2 powi (int p + e) / 2 powi e" by (simp add: divide_strict_right_mono)
  also have "\<dots> = 2 ^ p" by (simp add: power_int_add)
  finally have t: "\<bar>r / 2 powi e\<bar> < 2 ^ p" by simp
  then have a: "r / 2 powi e \<le> 2 ^ p" "- (2 ^ p) \<le> r / 2 powi e" by linarith+
  have "round_half_even (r / 2 powi e) \<le> 2 ^ p"
    by (rule round_half_even_le) (use a(1) in simp)
  moreover have "- (2 ^ p) \<le> round_half_even (r / 2 powi e)"
    by (rule round_half_even_ge) (use a(2) in simp)
  ultimately have "round_half_even (r / 2 powi e) \<le> 2 ^ p" "- (2 ^ p) \<le> round_half_even (r / 2 powi e)"
    by simp_all
  then have "\<bar>round_half_even (r / 2 powi e)\<bar> \<le> 2 ^ p" by simp
  then have "\<bar>of_int (round_half_even (r / 2 powi e)) :: real\<bar> \<le> of_int (2 ^ p)"
    by (metis of_int_abs of_int_le_iff)
  then have "\<bar>of_int (round_half_even (r / 2 powi e)) :: real\<bar> * 2 powi e \<le> 2 ^ p * 2 powi e"
    by (intro mult_right_mono) simp_all
  then show ?thesis unfolding fp_quantize_def by (simp add: abs_mult power_int_add)
qed

lemma fp_round64_finite:
  assumes "\<bar>r\<bar> < 2 powi 1023"
  shows "\<exists>y. fp_round binary64 r = Fin y"
proof (cases "r = 0")
  case True
  then show ?thesis by (simp add: fp_round_def)
next
  case False
  define e where "e = max (floor_log2 \<bar>r\<bar> - 52) (- 1074)"
  have "2 powi floor_log2 \<bar>r\<bar> \<le> \<bar>r\<bar>" using floor_log2_bounds(1) [of "\<bar>r\<bar>"] False by simp
  with assms have "(2::real) powi floor_log2 \<bar>r\<bar> < 2 powi 1023" by simp
  then have "floor_log2 \<bar>r\<bar> < 1023" by (rule power_int_le_imp_less_exp [rotated]) simp_all
  then have e: "e \<le> 970" by (simp add: e_def)
  have "floor_log2 \<bar>r\<bar> - (int 53 - 1) \<le> e" by (simp add: e_def)
  from fp_quantize_bound [OF False this] have "\<bar>fp_quantize e r\<bar> \<le> 2 powi (53 + e)" by simp
  also have "\<dots> \<le> 2 powi 1023" by (intro power_int_increasing) (use e in auto)
  also have "\<dots> < (2::real) powi 1024" by (intro power_int_strict_increasing) auto
  finally have "\<not> 2 powi exp_overflow binary64 \<le> \<bar>fp_quantize e r\<bar>" by (simp add: binary64_def)
  then show ?thesis using False by (simp add: fp_round_def fp_overflow_def e_def binary64_def)
qed

lemma fp_round64_nonneg:
  assumes "0 \<le> r"
  shows "(\<exists>y. fp_round binary64 r = Fin y \<and> 0 \<le> y) \<or> fp_round binary64 r = PosInf"
proof (cases "r = 0")
  case True
  then show ?thesis by (simp add: fp_round_def)
next
  case False
  define q where "q = fp_quantize (max (floor_log2 \<bar>r\<bar> - (int (precision binary64) - 1))
    (exp_quantum binary64)) r"
  have "of_int 0 \<le> r / 2 powi e" for e using assms by simp
  then have "0 \<le> round_half_even (r / 2 powi e)" for e by (rule round_half_even_ge)
  then have q: "0 \<le> q" by (simp add: q_def fp_quantize_def)
  have f: "fp_round binary64 r = fp_overflow binary64 q" using False by (simp add: fp_round_def q_def)
  show ?thesis
  proof (cases "2 powi exp_overflow binary64 \<le> \<bar>q\<bar>")
    case True
    have "(0::real) < 2 powi exp_overflow binary64" by simp
    with True q have "0 < q" by linarith
    then show ?thesis using True f by (simp add: fp_overflow_def)
  next
    case False
    then show ?thesis using q f by (simp add: fp_overflow_def)
  qed
qed

lemma fp_round64_ge_one:
  assumes "1 \<le> r"
  shows "(\<exists>y. fp_round binary64 r = Fin y \<and> 1 \<le> y) \<or> fp_round binary64 r = PosInf"
proof -
  define L where "L = floor_log2 \<bar>r\<bar>"
  have r: "r \<noteq> 0" "\<bar>r\<bar> = r" using assms by simp_all
  have lo: "2 powi L \<le> r" and hi: "r < 2 powi (L + 1)"
    using floor_log2_bounds [of "\<bar>r\<bar>"] r by (simp_all add: L_def)
  have L0: "0 \<le> L"
  proof (rule ccontr)
    assume "\<not> 0 \<le> L"
    then have "(2::real) powi (L + 1) \<le> 2 powi 0" by (intro power_int_increasing) auto
    with hi assms show False by simp
  qed
  have e: "max (L - 52) (- 1074) = L - 52" using L0 by simp
  have "(2::real) powi 52 = 2 powi L / 2 powi (L - 52)" by (simp add: power_int_diff)
  also have "\<dots> \<le> r / 2 powi (L - 52)" using lo by (simp add: divide_right_mono)
  finally have "of_int (2 ^ 52) \<le> r / 2 powi (L - 52)" by simp
  then have "2 ^ 52 \<le> round_half_even (r / 2 powi (L - 52))" by (rule round_half_even_ge)
  then have "(of_int (2 ^ 52) :: real) \<le> of_int (round_half_even (r / 2 powi (L - 52)))"
    by (simp only: of_int_le_iff)
  then have "(2 ^ 52 :: real) * 2 powi (L - 52) \<le> fp_quantize (L - 52) r"
    unfolding fp_quantize_def by (intro mult_right_mono) simp_all
  moreover have "(2 ^ 52 :: real) * 2 powi (L - 52) = 2 powi L"
    using power_int_add [of "2::real" 52 "L - 52"] by simp
  moreover have "(1::real) \<le> 2 powi L" using L0 by simp
  ultimately have q: "1 \<le> fp_quantize (L - 52) r" by linarith
  show ?thesis using r(1) q e
    by (auto simp: fp_round_def fp_overflow_def binary64_def L_def)
qed

lemma overhead_value: "overhead = Fin (2959005692670771 / 2 ^ 45)"
  by (simp add: overhead_def fp_round_def fp_quantize_def fp_overflow_def nearest_even_def binary64_def
      floor_log2_def round_half_even_def compute_bitlen)

subsection \<open>The scores and their order\<close>

lemma descending_key_le: "descending_key a \<le> descending_key b \<Longrightarrow> \<not> fp_less a b"
  by (cases a; cases b) simp_all

lemma descending_key_less: "descending_key a < descending_key b \<Longrightarrow> a \<noteq> b"
  by auto

lemma split_score_Inr:
  assumes "py_int_truediv total_kv bs = Inr avg_kv"
    and "split_score cu_num bs avg_kv i = Inr (s, i')"
  shows "i' = i \<and> s = float64_score cu_num bs total_kv i"
  using assms
  by (auto simp: split_score_def py_floordiv_def py_int_truediv_def py_float_of_int_def
      py_float_truediv_def py_float_mul_def py_float_add_def float64_score_def overhead_def
      ceil_to_compute_unit_multiple_def Let_def split: if_splits sum.splits fp.splits)

lemma resolve_None_Inr:
  assumes "resolve_num_kv_splits cu_num None bs total_kv = Inr r"
  shows "1 \<le> r \<and> r \<le> 16
     \<and> (\<forall>j \<in> {1..16}. \<not> fp_less (float64_score cu_num bs total_kv r) (float64_score cu_num bs total_kv j))
     \<and> (\<forall>j \<in> {1..16}. float64_score cu_num bs total_kv j = float64_score cu_num bs total_kv r \<longrightarrow> r \<le> j)"
proof -
  from assms obtain avg tmp where
    avg: "py_int_truediv total_kv bs = Inr avg"
    and tmp: "comprehension (split_score cu_num bs avg) [1..16] = Inr tmp"
    and r: "r = snd (hd (sorted_reverse tmp))"
    by (auto simp: resolve_num_kv_splits_def split: sum.splits)
  from comprehension_Inr [OF tmp] have len: "length tmp = 16"
    and each: "\<forall>k < 16. split_score cu_num bs avg ([1..16] ! k) = Inr (tmp ! k)"
    by simp_all
  have elem: "tmp ! k = (float64_score cu_num bs total_kv (1 + int k), 1 + int k)" if "k < 16" for k
  proof -
    have "[1..16::int] ! k = 1 + int k" using that by (simp add: nth_upto)
    with each that have "split_score cu_num bs avg (1 + int k) = Inr (tmp ! k)" by auto
    then show ?thesis
      using split_score_Inr [OF avg, of cu_num "1 + int k" "fst (tmp ! k)" "snd (tmp ! k)"]
      by (simp add: prod_eq_iff)
  qed
  have "tmp \<noteq> []" using len by auto
  from hd_sort_key_first_min [OF this, of "\<lambda>x. descending_key (fst x)"] len
  obtain k where k: "k < 16" "hd (sorted_reverse tmp) = tmp ! k"
    "\<forall>j < 16. descending_key (fst (tmp ! k)) \<le> descending_key (fst (tmp ! j))"
    "\<forall>j < k. descending_key (fst (tmp ! k)) < descending_key (fst (tmp ! j))"
    unfolding sorted_reverse_def by auto
  have rk: "r = 1 + int k" using r k(1,2) elem by simp
  have le: "\<not> fp_less (float64_score cu_num bs total_kv r) (float64_score cu_num bs total_kv j)"
    if "j \<in> {1..16}" for j
  proof -
    have j: "nat (j - 1) < 16" "1 + int (nat (j - 1)) = j" using that by auto
    from k(3) j(1) have "descending_key (fst (tmp ! k)) \<le> descending_key (fst (tmp ! nat (j - 1)))"
      by blast
    then have "descending_key (float64_score cu_num bs total_kv r)
        \<le> descending_key (float64_score cu_num bs total_kv j)"
      using elem [OF j(1)] elem [OF k(1)] j(2) rk by simp
    then show ?thesis by (rule descending_key_le)
  qed
  have first: "r \<le> j"
    if "j \<in> {1..16}" "float64_score cu_num bs total_kv j = float64_score cu_num bs total_kv r" for j
  proof (rule ccontr)
    assume "\<not> r \<le> j"
    then have lt: "nat (j - 1) < k" using rk that(1) by auto
    have j: "nat (j - 1) < 16" "1 + int (nat (j - 1)) = j" using that(1) by auto
    from k(4) lt have "descending_key (fst (tmp ! k)) < descending_key (fst (tmp ! nat (j - 1)))" by blast
    then have "descending_key (float64_score cu_num bs total_kv r)
        < descending_key (float64_score cu_num bs total_kv j)"
      using elem [OF j(1)] elem [OF k(1)] j(2) rk by simp
    with that(2) show False by simp
  qed
  show ?thesis using rk k(1) le first by auto
qed

lemma py_int_truediv_total:
  assumes "b \<noteq> 0" and "\<bar>of_int a / of_int b :: real\<bar> < 2 powi 1023"
  shows "\<exists>y. py_int_truediv a b = Inr (Fin y) \<and> fp_round binary64 (of_int a / of_int b) = Fin y"
  using fp_round64_finite [OF assms(2)] assms(1) by (auto simp: py_int_truediv_def)

lemma split_score_total:
  assumes "0 < cu_num" "0 < bs" "0 \<le> a" "1 \<le> i" "i \<le> 16"
  shows "\<exists>s. split_score cu_num bs (Fin a) i = Inr (s, i)"
proof -
  have "0 < bs * i" using assms by simp
  then have "cu_num \<le> bs * i + cu_num - 1" by simp
  then have "0 < (bs * i + cu_num - 1) div cu_num"
    using assms(1) pos_imp_zdiv_pos_iff [of cu_num "bs * i + cu_num - 1"] by simp
  then have c: "0 < (bs * i + cu_num - 1) div cu_num * cu_num" using assms(1) by simp
  have "bs * i + cu_num - 1 = (bs * i + cu_num - 1) div cu_num * cu_num + (bs * i + cu_num - 1) mod cu_num"
    by simp
  moreover have "(bs * i + cu_num - 1) mod cu_num < cu_num" using assms(1) by simp
  ultimately have ge: "bs * i \<le> (bs * i + cu_num - 1) div cu_num * cu_num" by linarith
  define X where "X = (bs * i + cu_num - 1) div cu_num * cu_num"
  have "(of_int (bs * i) :: real) \<le> of_int X" using ge unfolding X_def by (simp only: of_int_le_iff)
  moreover have "(0::real) < of_int (bs * i)" using \<open>0 < bs * i\<close> by (simp only: of_int_0_less_iff)
  ultimately have "0 \<le> (of_int (bs * i) / of_int X :: real)" "(of_int (bs * i) / of_int X :: real) \<le> 1"
    by (simp_all add: divide_le_eq_1)
  then have u1: "\<bar>of_int (bs * i) / of_int X :: real\<bar> \<le> 1" by linarith
  have "(1::real) < 2 powi 1023" by simp
  with u1 have "\<bar>of_int (bs * i) / of_int X :: real\<bar> < 2 powi 1023" by linarith
  moreover have "0 < X" using c by (simp only: X_def)
  then have "X \<noteq> 0" by simp
  ultimately obtain u where u: "py_int_truediv (bs * i) X = Inr (Fin u)"
    using py_int_truediv_total [of X "bs * i"] by blast
  have "\<bar>of_int i :: real\<bar> < 2 powi 1023" using assms(4,5) by simp
  from fp_round64_finite [OF this] fp_round64_ge_one [of "of_int i"] assms(4)
  obtain fi where fi: "fp_round binary64 (of_int i) = Fin fi" "1 \<le> fi" by auto
  have o: "fp_mul overhead (Fin fi) = Fin (2959005692670771 / 2 ^ 45 * fi)"
    by (simp add: overhead_value)
  have c1: "(1::real) \<le> 2959005692670771 / 2 ^ 45" by simp
  have "1 \<le> (2959005692670771 / 2 ^ 45 :: real) * fi" using mult_mono [OF c1 fi(2)] by simp
  from fp_round64_ge_one [OF this] consider p where
    "py_float_mul overhead (Fin fi) = Fin p" "1 \<le> p" | "py_float_mul overhead (Fin fi) = PosInf"
    by (auto simp: py_float_mul_def o)
  then have "py_float_add (Fin a) (py_float_mul overhead (Fin fi)) \<noteq> Fin 0"
  proof cases
    case 1
    have "1 \<le> a + p" using 1(2) assms(3) by simp
    from fp_round64_ge_one [OF this] show ?thesis by (auto simp: py_float_add_def 1(1))
  next
    case 2
    then show ?thesis by (simp add: py_float_add_def)
  qed
  then show ?thesis using u fi(1) assms(1)
    by (simp add: split_score_def py_floordiv_def py_float_of_int_def py_float_truediv_def X_def)
qed

lemma resolve_None_total:
  assumes "0 < cu_num" "0 < bs" "0 \<le> total_kv" "total_kv < 2 ^ 1023"
  shows "\<exists>r. resolve_num_kv_splits cu_num None bs total_kv = Inr r"
proof -
  have "(1::real) \<le> of_int bs" using assms(2) by simp
  then have "(of_int total_kv / of_int bs :: real) \<le> of_int total_kv / 1"
    using assms(3) by (intro divide_left_mono) simp_all
  then have "(of_int total_kv / of_int bs :: real) \<le> of_int total_kv" by simp
  moreover have "(of_int total_kv :: real) < of_int (2 ^ 1023)" using assms(4) by (simp only: of_int_less_iff)
  moreover have r0: "0 \<le> (of_int total_kv / of_int bs :: real)" using assms(2,3) by simp
  ultimately have "\<bar>of_int total_kv / of_int bs :: real\<bar> < 2 powi 1023" by simp
  from py_int_truediv_total [OF _ this] assms(2) obtain a where
    a: "py_int_truediv total_kv bs = Inr (Fin a)"
      "fp_round binary64 (of_int total_kv / of_int bs) = Fin a" by auto
  have a0: "0 \<le> a" using fp_round64_nonneg [OF r0] a(2) by auto
  have "\<forall>i \<in> set [1..16]. \<exists>y. split_score cu_num bs (Fin a) i = Inr y"
    using split_score_total [OF assms(1,2) a0] by fastforce
  from comprehension_total [OF this] obtain tmp where
    "comprehension (split_score cu_num bs (Fin a)) [1..16] = Inr tmp" by blast
  then show ?thesis using a(1) by (simp add: resolve_num_kv_splits_def)
qed

subsection \<open>Loads, stores and the split ranges\<close>

lemma cdiv_ceiling:
  "0 < d \<Longrightarrow> cdiv x d = \<lceil>real_of_int x / real_of_int d\<rceil>"
proof -
  assume d: "0 < d"
  define z where "z = (x + d - 1) div d"
  define r where "r = (x + d - 1) mod d"
  have eq: "x + d - 1 = z * d + r" by (simp add: z_def r_def)
  have r: "0 \<le> r" "r < d" using d by (simp_all add: r_def)
  have up: "x \<le> z * d" using eq r by linarith
  have lo: "(z - 1) * d < x" using eq r by (simp add: algebra_simps)
  have "real_of_int x \<le> real_of_int z * real_of_int d"
    using up by (metis of_int_le_iff of_int_mult)
  then have a: "real_of_int x / real_of_int d \<le> real_of_int z"
    using d by (simp add: pos_divide_le_eq)
  have "(real_of_int z - 1) * real_of_int d < real_of_int x"
    using lo by (metis of_int_less_iff of_int_mult of_int_diff of_int_1)
  then have b: "real_of_int z - 1 < real_of_int x / real_of_int d"
    using d by (simp add: pos_less_divide_eq)
  have "\<lceil>real_of_int x / real_of_int d\<rceil> = z"
    by (rule ceiling_unique) (use a b in auto)
  then show ?thesis by (simp add: cdiv_def z_def)
qed

lemma tl_load_map:
  "tl_load m (map f xs) (map p xs) = map (\<lambda>d. if p d then m (f d) else Fin 0) xs"
  by (induction xs) (auto simp: tl_load_def)

lemma loaded_lanes_map:
  "loaded_lanes (map f xs) (map p xs) = map f (filter p xs)"
  by (induction xs) (auto simp: loaded_lanes_def)

lemma tl_store_map_other:
  "a \<notin> f ` {d \<in> set xs. p d} \<Longrightarrow> tl_store m (map f xs) (map g xs) (map p xs) a = m a"
proof (induction xs arbitrary: m)
  case Nil
  then show ?case by (simp add: tl_store_def)
next
  case (Cons y ys)
  have rest: "a \<notin> f ` {d \<in> set ys. p d}" using Cons.prems by auto
  have step: "tl_store m (map f (y # ys)) (map g (y # ys)) (map p (y # ys))
      = tl_store (if p y then m(f y := g y) else m) (map f ys) (map g ys) (map p ys)"
    by (simp add: tl_store_def)
  have "a \<noteq> f y" if "p y" using Cons.prems that by auto
  then show ?case unfolding step using Cons.IH [OF rest] by auto
qed

lemma tl_store_map_lane:
  "inj_on f (set xs) \<Longrightarrow> d \<in> set xs \<Longrightarrow> p d \<Longrightarrow>
   tl_store m (map f xs) (map g xs) (map p xs) (f d) = g d"
proof (induction xs arbitrary: m)
  case Nil
  then show ?case by simp
next
  case (Cons y ys)
  show ?case
  proof (cases "d \<in> set ys")
    case True
    then show ?thesis using Cons by (auto simp: tl_store_def)
  next
    case False
    with Cons.prems have dy: "d = y" by simp
    have "f y \<notin> f ` {e \<in> set ys. p e}"
      using Cons.prems(1) False dy by (auto simp: inj_on_def)
    from tl_store_map_other [OF this, of _ g]
    show ?thesis using dy Cons.prems(3) by (simp add: tl_store_def)
  qed
qed

lemma stage2_split_empty:
  "split_kv_end mgc len N s \<le> split_kv_start mgc len N s \<Longrightarrow>
   stage2_split Mid_O Mid_lse sos N Lv mgc len mask_d offs_v offs_logic s st = st"
  by (simp add: stage2_split_def)

lemma fold_id: "(\<forall>x \<in> set xs. f x s = s) \<Longrightarrow> fold f xs s = s"
  by (induction xs) auto

lemma splits_empty_of_zero_len:
  assumes "0 < N" "0 \<le> s"
  shows "split_kv_end mgc 0 N s \<le> split_kv_start mgc 0 N s"
proof -
  have "cdiv 0 N = 0" using assms(1) by (simp add: cdiv_def)
  then have c: "0 \<le> kv_len_per_split mgc 0 N" by (simp add: kv_len_per_split_def)
  then have "0 \<le> split_kv_start mgc 0 N s" using assms(2) by (simp add: split_kv_start_def)
  then show ?thesis by (simp add: split_kv_end_def)
qed

lemma stage2_split_acc_length:
  "length mask_d = n \<Longrightarrow> length offs_v = n \<Longrightarrow> length (acc st) = n \<Longrightarrow>
   length (acc (stage2_split Mid_O Mid_lse sos N Lv mgc len mask_d offs_v offs_logic s st)) = n"
  by (simp add: stage2_split_def Let_def tl_load_def)

lemma fold_stage2_split_acc_length:
  "length mask_d = n \<Longrightarrow> length offs_v = n \<Longrightarrow> length (acc st) = n \<Longrightarrow>
   length (acc (fold (stage2_split Mid_O Mid_lse sos N Lv mgc len mask_d offs_v offs_logic) ss st)) = n"
  by (induction ss arbitrary: st) (simp_all add: stage2_split_acc_length)

lemma stage2_reduce_acc_length:
  "length (acc (stage2_reduce Mid_O Mid_lse smob smoh smos N BD Lv mgc cur_qo h len)) = nat BD"
  unfolding stage2_reduce_def Let_def
  by (rule fold_stage2_split_acc_length) simp_all

lemma list_as_map_upto:
  "length xs = nat n \<Longrightarrow> xs = map (\<lambda>d. xs ! nat d) [0..n - 1]"
proof (rule nth_equalityI)
  assume l: "length xs = nat n"
  show "length xs = length (map (\<lambda>d. xs ! nat d) [0..n - 1])" using l by simp
  fix i assume "i < length xs"
  then have "[0..n - 1] ! i = int i" using l by (simp add: nth_upto)
  then show "xs ! i = map (\<lambda>d. xs ! nat d) [0..n - 1] ! i" using l \<open>i < length xs\<close> by simp
qed

lemma inj_on_add: "inj_on (\<lambda>d::int. c + d) A"
  by (simp add: inj_on_def)


lemma kernel_Some:
  assumes "qo b + off \<le> qo (b + 1)"
  shows "\<exists>r. fwd_kernel_stage2_asm Mid_O Mid_lse Out qo kv smob smoh smos sobs soh bs nh msq N BD Lv mgc b h off = Some r
     \<and> stored_Out r = map (\<lambda>d. (qo b + off) * sobs + h * soh + d) (filter (\<lambda>d. d < Lv) [0..BD - 1])
     \<and> loads_Mid_O r = loaded_Mid_O (stage2_reduce Mid_O Mid_lse smob smoh smos N BD Lv mgc (qo b + off) h (kv (b + 1) - kv b))
     \<and> loads_Mid_lse r = loaded_Mid_lse (stage2_reduce Mid_O Mid_lse smob smoh smos N BD Lv mgc (qo b + off) h (kv (b + 1) - kv b))
     \<and> (\<forall>d \<in> set [0..BD - 1]. d < Lv \<longrightarrow>
           out_mem r ((qo b + off) * sobs + h * soh + d)
             = fp_div (acc (stage2_reduce Mid_O Mid_lse smob smoh smos N BD Lv mgc (qo b + off) h (kv (b + 1) - kv b)) ! nat d)
                 (e_sum (stage2_reduce Mid_O Mid_lse smob smoh smos N BD Lv mgc (qo b + off) h (kv (b + 1) - kv b))))
     \<and> (\<forall>a. a \<notin> set (stored_Out r) \<longrightarrow> out_mem r a = Out a)"
proof -
  define st where "st = stage2_reduce Mid_O Mid_lse smob smoh smos N BD Lv mgc (qo b + off) h (kv (b + 1) - kv b)"
  let ?f = "\<lambda>d. (qo b + off) * sobs + h * soh + d"
  let ?g = "\<lambda>d. fp_div (acc st ! nat d) (e_sum st)"
  let ?p = "\<lambda>d. d < Lv"
  let ?xs = "[0..BD - 1]"
  have len: "length (acc st) = nat BD" by (simp add: st_def stage2_reduce_acc_length)
  have vals: "map (\<lambda>a. fp_div a (e_sum st)) (acc st) = map ?g ?xs"
    by (subst list_as_map_upto [OF len]) (simp add: comp_def)
  define r where "r = \<lparr>out_mem = tl_store Out (map ?f ?xs) (map ?g ?xs) (map ?p ?xs),
     stored_Out = map ?f (filter ?p ?xs), loads_Mid_O = loaded_Mid_O st,
     loads_Mid_lse = loaded_Mid_lse st\<rparr>"
  have k: "fwd_kernel_stage2_asm Mid_O Mid_lse Out qo kv smob smoh smos sobs soh bs nh msq N BD Lv mgc b h off = Some r"
    using assms(1) vals
    by (simp add: fwd_kernel_stage2_asm_def Let_def r_def st_def [symmetric] loaded_lanes_map)
  have lane: "out_mem r (?f d) = ?g d" if "d \<in> set ?xs" "d < Lv" for d
  proof -
    have "inj_on ?f (set ?xs)" by (simp add: inj_on_def)
    from tl_store_map_lane [OF this that(1), of ?p Out ?g] that(2)
    show ?thesis by (simp add: r_def)
  qed
  have other: "out_mem r a = Out a" if "a \<notin> set (stored_Out r)" for a
  proof -
    have "a \<notin> ?f ` {d \<in> set ?xs. ?p d}" using that by (auto simp: r_def)
    from tl_store_map_other [OF this, of Out ?g] show ?thesis by (simp add: r_def)
  qed
  show ?thesis using k lane other unfolding st_def [symmetric] by (intro exI [of _ r]) (simp add: r_def)
qed

lemma stage2_reduce_zero_len:
  "stage2_reduce Mid_O Mid_lse smob smoh smos N BD Lv mgc cur_qo h 0
     = \<lparr>e_sum = Fin 0, e_max = NegInf, acc = map (\<lambda>d. Fin 0) [0..BD - 1],
        loaded_Mid_O = [], loaded_Mid_lse = []\<rparr>"
  unfolding stage2_reduce_def Let_def
proof (rule fold_id, intro ballI)
  fix s assume "s \<in> set (map int [0..<nat N])"
  then have "0 < N" "0 \<le> s" by auto
  from splits_empty_of_zero_len [OF this]
  show "stage2_split Mid_O Mid_lse smos N Lv mgc 0 (map (\<lambda>d. d < Lv) [0..BD - 1])
          (map (\<lambda>d. (cur_qo * smob + h * smoh) * Lv + d) [0..BD - 1]) (cur_qo * smob + h * smoh) s
          \<lparr>e_sum = Fin 0, e_max = NegInf, acc = map (\<lambda>d. Fin 0) [0..BD - 1],
             loaded_Mid_O = [], loaded_Mid_lse = []\<rparr>
        = \<lparr>e_sum = Fin 0, e_max = NegInf, acc = map (\<lambda>d. Fin 0) [0..BD - 1],
             loaded_Mid_O = [], loaded_Mid_lse = []\<rparr>"
    by (rule stage2_split_empty)
qed

lemma kernel_zero_len:
  assumes "qo b + off \<le> qo (b + 1)" "kv (b + 1) = kv b"
  shows "\<exists>r. fwd_kernel_stage2_asm Mid_O Mid_lse Out qo kv smob smoh smos sobs soh bs nh msq N BD Lv mgc b h off = Some r
     \<and> loads_Mid_O r = [] \<and> loads_Mid_lse r = []
     \<and> (\<forall>d \<in> set [0..BD - 1]. d < Lv \<longrightarrow> out_mem r ((qo b + off) * sobs + h * soh + d) = NaN)"
proof -
  from kernel_Some [OF assms(1), where Mid_O=Mid_O and Mid_lse=Mid_lse and smob=smob and smoh=smoh and smos=smos and N=N and BD=BD and Lv=Lv and mgc=mgc and h=h and kv=kv and Out=Out and sobs=sobs and soh=soh and bs=bs and nh=nh and msq=msq]
  obtain r where r: "fwd_kernel_stage2_asm Mid_O Mid_lse Out qo kv smob smoh smos sobs soh bs nh msq N BD Lv mgc b h off = Some r"
    "loads_Mid_O r = []" "loads_Mid_lse r = []"
    "\<forall>d \<in> set [0..BD - 1]. d < Lv \<longrightarrow>
           out_mem r ((qo b + off) * sobs + h * soh + d) = fp_div (Fin 0) (Fin 0)"
    using assms(2) by (auto simp: stage2_reduce_zero_len nth_upto)
  then show ?thesis by (auto simp: inf_of_sign_def)
qed

subsection \<open>The online softmax\<close>







lemma map2_map_map: "map2 f (map g xs) (map h xs) = map (\<lambda>d. f (g d) (h d)) xs"
  by (induction xs) auto






subsection \<open>The split-count heuristic\<close>

lemma resolve_Some: "resolve_num_kv_splits cu_num (Some n) bs total_kv = Inr n"
  by (simp add: resolve_num_kv_splits_def)

lemma get_meta_param_Inr:
  "get_meta_param cu_num num_kv_splits bs total_kv nhead max_seqlen_q = Inr (r, m) \<Longrightarrow>
   resolve_num_kv_splits cu_num num_kv_splits bs total_kv = Inr r"
  by (auto simp: get_meta_param_def split: sum.splits option.splits)

lemma resolve_example: "resolve_num_kv_splits 80 None 32 262144 = Inr 5"
  by (simp add: resolve_num_kv_splits_def py_int_truediv_def py_float_of_int_def py_float_mul_def
      py_float_add_def py_float_truediv_def split_score_def py_floordiv_def overhead_def
      sorted_reverse_def fp_round_def fp_quantize_def fp_overflow_def nearest_even_def binary64_def
      floor_log2_def round_half_even_def compute_bitlen inf_of_sign_def upto_rec1)

lemma resolve_example_21: "resolve_num_kv_splits 80 None 1 21 = Inr 16"
  by (simp add: resolve_num_kv_splits_def py_int_truediv_def py_float_of_int_def py_float_mul_def
      py_float_add_def py_float_truediv_def split_score_def py_floordiv_def overhead_def
      sorted_reverse_def fp_round_def fp_quantize_def fp_overflow_def nearest_even_def binary64_def
      floor_log2_def round_half_even_def compute_bitlen inf_of_sign_def upto_rec1)

lemma resolve_example_tie: "resolve_num_kv_splits 80 None 28 23548 = Inr 5"
  by (simp add: resolve_num_kv_splits_def py_int_truediv_def py_float_of_int_def py_float_mul_def
      py_float_add_def py_float_truediv_def split_score_def py_floordiv_def overhead_def
      sorted_reverse_def fp_round_def fp_quantize_def fp_overflow_def nearest_even_def binary64_def
      floor_log2_def round_half_even_def compute_bitlen inf_of_sign_def upto_rec1)

text \<open>
  For a positive number of compute units, the expression of line 95 rounds up to the
  next multiple of it.
\<close>

lemma ceil_to_compute_unit_multiple_least:
  assumes "0 < cu_num"
  shows "cu_num dvd ceil_to_compute_unit_multiple cu_num x
    \<and> x \<le> ceil_to_compute_unit_multiple cu_num x
    \<and> ceil_to_compute_unit_multiple cu_num x < x + cu_num"
proof -
  have "x + cu_num - 1 = (x + cu_num - 1) div cu_num * cu_num + (x + cu_num - 1) mod cu_num"
    by simp
  moreover have "0 \<le> (x + cu_num - 1) mod cu_num" "(x + cu_num - 1) mod cu_num < cu_num"
    using assms by simp_all
  ultimately have "x \<le> (x + cu_num - 1) div cu_num * cu_num"
    "(x + cu_num - 1) div cu_num * cu_num < x + cu_num" by linarith+
  then show ?thesis unfolding ceil_to_compute_unit_multiple_def by simp
qed

text \<open>
  Claim C6, amended. \<^verbatim>\<open>get_meta_param\<close> returns a given \<^verbatim>\<open>num_kv_splits\<close> unchanged.
  When none is given, the value it returns is a candidate \<open>r\<close> of \<open>1..16\<close> such that no
  candidate has a greater score and no candidate below \<open>r\<close> has the same score, where the
  score is the specification's formula with \<open>84.1\<close> and the result of every operation
  rounded to binary64: the stable descending sort puts the lowest-indexed maximum of the
  rounded scores first. The last part says that the function does return: always for a
  supported head count when the split count is given, and for a positive number of
  compute units, a positive batch size and a number of keys from \<open>0\<close> to below \<open>2\<^sup>1\<^sup>0\<^sup>2\<^sup>3\<close>
  when it is not.
\<close>

theorem get_meta_param_num_kv_splits:
  "(get_meta_param cu_num (Some n) bs total_kv nhead max_seqlen_q = Inr (r, m) \<longrightarrow> r = n)
   \<and> (get_meta_param cu_num None bs total_kv nhead max_seqlen_q = Inr (r, m) \<longrightarrow>
        r \<in> {1..16}
        \<and> (\<forall>j \<in> {1..16}. \<not> fp_less (float64_score cu_num bs total_kv r)
                                  (float64_score cu_num bs total_kv j))
        \<and> (\<forall>j \<in> {1..16}. float64_score cu_num bs total_kv j = float64_score cu_num bs total_kv r
              \<longrightarrow> r \<le> j))
   \<and> (nhead \<in> {16, 128} \<longrightarrow>
        (\<exists>m'. get_meta_param cu_num (Some n) bs total_kv nhead max_seqlen_q = Inr (n, m'))
        \<and> (0 < cu_num \<and> 0 < bs \<and> 0 \<le> total_kv \<and> total_kv < 2 ^ 1023 \<longrightarrow>
             (\<exists>r' m'. get_meta_param cu_num None bs total_kv nhead max_seqlen_q = Inr (r', m'))))"
proof (intro conjI impI)
  assume "get_meta_param cu_num (Some n) bs total_kv nhead max_seqlen_q = Inr (r, m)"
  from get_meta_param_Inr [OF this] show "r = n" by (simp add: resolve_Some)
next
  assume a: "get_meta_param cu_num None bs total_kv nhead max_seqlen_q = Inr (r, m)"
  from resolve_None_Inr [OF get_meta_param_Inr [OF a]]
  show "r \<in> {1..16}"
    and "\<forall>j \<in> {1..16}. \<not> fp_less (float64_score cu_num bs total_kv r)
                                  (float64_score cu_num bs total_kv j)"
    and "\<forall>j \<in> {1..16}. float64_score cu_num bs total_kv j = float64_score cu_num bs total_kv r
          \<longrightarrow> r \<le> j"
    by auto
next
  assume "nhead \<in> {16, 128}"
  then show "\<exists>m'. get_meta_param cu_num (Some n) bs total_kv nhead max_seqlen_q = Inr (n, m')"
    by (auto simp: get_meta_param_def resolve_Some get_mgc_cases)
next
  assume h: "nhead \<in> {16, 128}" and "0 < cu_num \<and> 0 < bs \<and> 0 \<le> total_kv \<and> total_kv < 2 ^ 1023"
  then obtain r' where "resolve_num_kv_splits cu_num None bs total_kv = Inr r'"
    using resolve_None_total by blast
  then show "\<exists>r' m'. get_meta_param cu_num None bs total_kv nhead max_seqlen_q = Inr (r', m')"
    using h by (auto simp: get_meta_param_def get_mgc_cases)
qed

text \<open>
  With 80 compute units, a batch of 32 sequences and 262144 keys, five splits score
  best; a requested split count of three is passed through.
\<close>

theorem get_meta_param_num_kv_splits_witness:
  "get_meta_param 80 (Some 3) 32 262144 128 2 = Inr (3, 16)
   \<and> get_meta_param 80 None 32 262144 128 2 = Inr (5, 16)
   \<and> \<not> fp_less (float64_score 80 32 262144 5) (float64_score 80 32 262144 4)
   \<and> \<not> fp_less (float64_score 80 32 262144 5) (float64_score 80 32 262144 16)"
proof -
  have a: "get_meta_param 80 (Some 3) 32 262144 128 2 = Inr (3, 16)"
    by (simp add: get_meta_param_def resolve_Some get_mgc_cases)
  have b: "get_meta_param 80 None 32 262144 128 2 = Inr (5, 16)"
    by (simp add: get_meta_param_def resolve_example get_mgc_cases)
  from get_meta_param_num_kv_splits [of 80 3 32 262144 128 2 5 16] b
  have "\<forall>j \<in> {1..16}. \<not> fp_less (float64_score 80 32 262144 5) (float64_score 80 32 262144 j)"
    by blast
  then have "\<not> fp_less (float64_score 80 32 262144 5) (float64_score 80 32 262144 4)"
    "\<not> fp_less (float64_score 80 32 262144 5) (float64_score 80 32 262144 16)" by auto
  then show ?thesis using a b by simp
qed

text \<open>
  Claim C6 as stated, with the score over the reals: for 80 compute units, a batch of 28
  sequences and 23548 keys the candidates 2 and 5 have the same score \<open>7 / 12\<close>, which
  is the greatest, so the claim's choice is 2. The rounded scores of 2 and 5 differ in
  the last bit, and \<^verbatim>\<open>get_meta_param\<close> returns 5.
\<close>

theorem get_meta_param_rounded_tie_counterexample:
  "get_meta_param 80 None 28 23548 128 1 = Inr (5, 16)
   \<and> map (spec_score 80 28 23548) [1..16]
       = [7 / 22, 7 / 12, 21 / 52, 1 / 2, 7 / 12, 7 / 16, 49 / 102, 14 / 27, 63 / 152, 7 / 16,
          11 / 24, 21 / 55, 91 / 230, 49 / 120, 7 / 20, 14 / 39]
   \<and> float64_score 80 28 23548 2 = Fin (5254199565265578 / 2 ^ 53)
   \<and> float64_score 80 28 23548 5 = Fin (5254199565265579 / 2 ^ 53)"
proof -
  have a: "get_meta_param 80 None 28 23548 128 1 = Inr (5, 16)"
    by (simp add: get_meta_param_def resolve_example_tie get_mgc_cases)
  have b: "map (spec_score 80 28 23548) [1..16]
       = [7 / 22, 7 / 12, 21 / 52, 1 / 2, 7 / 12, 7 / 16, 49 / 102, 14 / 27, 63 / 152, 7 / 16,
          11 / 24, 21 / 55, 91 / 230, 49 / 120, 7 / 20, 14 / 39]"
    by (simp add: spec_score_def ceil_to_compute_unit_multiple_def upto_rec1)
  have c: "float64_score 80 28 23548 2 = Fin (5254199565265578 / 2 ^ 53)"
    "float64_score 80 28 23548 5 = Fin (5254199565265579 / 2 ^ 53)"
    by (simp_all add: float64_score_def ceil_to_compute_unit_multiple_def fp_round_def
        fp_quantize_def fp_overflow_def nearest_even_def binary64_def floor_log2_def
        round_half_even_def compute_bitlen)
  show ?thesis using a b c by simp
qed

text \<open>
  Claim C7, amended. Whenever the resolution of the split count (lines 87 to 103)
  completes with \<open>n\<close>, which it does for a given split count and, without one, for a
  positive number of compute units, a non-empty batch and a number of keys from \<open>0\<close> to
  below \<open>2\<^sup>1\<^sup>0\<^sup>2\<^sup>3\<close> (beyond the range of a float the division of line 89 raises
  \<^verbatim>\<open>OverflowError\<close>), lines 105 to 111 decide the
  result: the minimum chunk size is 64 for one query token and 16 heads, it is 16 for 16
  or 128 heads otherwise, and every other head count fails the assertion, an
  unsupported-configuration error. The specification's scenario (one sequence of 21
  keys, 16 heads, one query token) resolves to 64 for every positive number of compute
  units.
\<close>

theorem get_meta_param_min_chunk_size:
  "(resolve_num_kv_splits cu_num num_kv_splits bs total_kv = Inr n \<longrightarrow>
     get_meta_param cu_num num_kv_splits bs total_kv nhead max_seqlen_q =
       (if max_seqlen_q = 1 \<and> nhead = 16 then Inr (n, 64)
        else if nhead \<in> {16, 128} then Inr (n, 16)
        else Inl (NheadNotSupported nhead)))
   \<and> unsupported_configuration (NheadNotSupported nhead)
   \<and> resolve_num_kv_splits cu_num (Some n) bs total_kv = Inr n
   \<and> (0 < cu_num \<and> 0 < bs \<and> 0 \<le> total_kv \<and> total_kv < 2 ^ 1023 \<longrightarrow>
        (\<exists>r. resolve_num_kv_splits cu_num None bs total_kv = Inr r))
   \<and> (0 < cu_num \<longrightarrow> (\<exists>r. get_meta_param cu_num None 1 21 16 1 = Inr (r, 64)))"
proof (intro conjI impI)
  assume "resolve_num_kv_splits cu_num num_kv_splits bs total_kv = Inr n"
  then show "get_meta_param cu_num num_kv_splits bs total_kv nhead max_seqlen_q =
       (if max_seqlen_q = 1 \<and> nhead = 16 then Inr (n, 64)
        else if nhead \<in> {16, 128} then Inr (n, 16)
        else Inl (NheadNotSupported nhead))"
    by (simp add: get_meta_param_def get_mgc_cases)
next
  show "unsupported_configuration (NheadNotSupported nhead)" by simp
next
  show "resolve_num_kv_splits cu_num (Some n) bs total_kv = Inr n" by (rule resolve_Some)
next
  assume "0 < cu_num \<and> 0 < bs \<and> 0 \<le> total_kv \<and> total_kv < 2 ^ 1023"
  then show "\<exists>r. resolve_num_kv_splits cu_num None bs total_kv = Inr r"
    using resolve_None_total by blast
next
  assume "0 < cu_num"
  then obtain r where "resolve_num_kv_splits cu_num None 1 21 = Inr r"
    using resolve_None_total [of cu_num 1 21] by auto
  then show "\<exists>r. get_meta_param cu_num None 1 21 16 1 = Inr (r, 64)"
    by (simp add: get_meta_param_def get_mgc_cases)
qed

text \<open>The scenario with 80 compute units, and its neighbours.\<close>

theorem get_meta_param_min_chunk_size_witness:
  "get_meta_param 80 None 1 21 16 1 = Inr (16, 64)
   \<and> get_meta_param 80 None 1 21 16 2 = Inr (16, 16)
   \<and> get_meta_param 80 None 1 21 128 1 = Inr (16, 16)
   \<and> get_meta_param 80 None 1 21 7 1 = Inl (NheadNotSupported 7)"
  using get_meta_param_min_chunk_size [of 80 None 1 21 16 16 1]
    get_meta_param_min_chunk_size [of 80 None 1 21 16 16 2]
    get_meta_param_min_chunk_size [of 80 None 1 21 16 128 1]
    get_meta_param_min_chunk_size [of 80 None 1 21 16 7 1]
  by (simp add: resolve_example_21)

subsection \<open>Stage 2 computes the attention over all keys\<close>




lemma upt_0_2: "[0..<2] = [0, Suc 0]"
  by (simp add: upt_rec)



subsection \<open>The guard, empty splits and empty sequences\<close>



text \<open>
  The loop reads \<^verbatim>\<open>Mid_O\<close> and \<^verbatim>\<open>Mid_lse\<close> only at the entries of the splits that are
  not empty: two pairs of tensors that agree there give the same final state.
\<close>

lemma stage2_split_cong:
  assumes "split_kv_start mgc len N s < split_kv_end mgc len N s \<longrightarrow>
      Mid_lse (offs_logic + s * smos) = Mid_lse' (offs_logic + s * smos)
      \<and> (\<forall>d \<in> set xs. p d \<longrightarrow> Mid_O (g d + s * smos * Lv) = Mid_O' (g d + s * smos * Lv))"
  shows "stage2_split Mid_O Mid_lse smos N Lv mgc len (map p xs) (map g xs) offs_logic s st
       = stage2_split Mid_O' Mid_lse' smos N Lv mgc len (map p xs) (map g xs) offs_logic s st"
proof (cases "split_kv_start mgc len N s < split_kv_end mgc len N s")
  case False
  then show ?thesis by (simp add: stage2_split_def)
next
  case True
  with assms have l: "Mid_lse (offs_logic + s * smos) = Mid_lse' (offs_logic + s * smos)"
    and o: "\<forall>d \<in> set xs. p d \<longrightarrow> Mid_O (g d + s * smos * Lv) = Mid_O' (g d + s * smos * Lv)"
    by simp_all
  have "tl_load Mid_O (map (\<lambda>a. a + s * smos * Lv) (map g xs)) (map p xs)
      = tl_load Mid_O' (map (\<lambda>a. a + s * smos * Lv) (map g xs)) (map p xs)"
    using o by (simp add: comp_def tl_load_map)
  then show ?thesis using l by (simp add: stage2_split_def Let_def)
qed

lemma stage2_reduce_ignores_empty_splits:
  assumes "\<forall>s \<in> set [0..N - 1]. split_kv_start mgc len N s < split_kv_end mgc len N s \<longrightarrow>
      Mid_lse (cur_qo * smob + h * smoh + s * smos) = Mid_lse' (cur_qo * smob + h * smoh + s * smos)
      \<and> (\<forall>d \<in> set [0..BD - 1]. d < Lv \<longrightarrow>
            Mid_O ((cur_qo * smob + h * smoh) * Lv + d + s * smos * Lv)
              = Mid_O' ((cur_qo * smob + h * smoh) * Lv + d + s * smos * Lv))"
  shows "stage2_reduce Mid_O Mid_lse smob smoh smos N BD Lv mgc cur_qo h len
       = stage2_reduce Mid_O' Mid_lse' smob smoh smos N BD Lv mgc cur_qo h len"
  unfolding stage2_reduce_def Let_def
proof (rule fold_cong [OF refl refl])
  fix s assume "s \<in> set (map int [0..<nat N])"
  then have "s \<in> set [0..N - 1]" by auto
  with assms have a: "split_kv_start mgc len N s < split_kv_end mgc len N s \<longrightarrow>
      Mid_lse (cur_qo * smob + h * smoh + s * smos) = Mid_lse' (cur_qo * smob + h * smoh + s * smos)
      \<and> (\<forall>d \<in> set [0..BD - 1]. d < Lv \<longrightarrow>
            Mid_O ((cur_qo * smob + h * smoh) * Lv + d + s * smos * Lv)
              = Mid_O' ((cur_qo * smob + h * smoh) * Lv + d + s * smos * Lv))" by blast
  show "stage2_split Mid_O Mid_lse smos N Lv mgc len (map (\<lambda>d. d < Lv) [0..BD - 1])
          (map (\<lambda>d. (cur_qo * smob + h * smoh) * Lv + d) [0..BD - 1]) (cur_qo * smob + h * smoh) s
      = stage2_split Mid_O' Mid_lse' smos N Lv mgc len (map (\<lambda>d. d < Lv) [0..BD - 1])
          (map (\<lambda>d. (cur_qo * smob + h * smoh) * Lv + d) [0..BD - 1]) (cur_qo * smob + h * smoh) s"
    by (rule ext, rule stage2_split_cong) (use a in simp)
qed

text \<open>
  Claim C5. With \<open>chunk_size = max(mgc, ceil(cur_kv_seq_len / NUM_KV_SPLITS))\<close>,
  \<open>split_start = chunk_size * s\<close> and \<open>split_end = min(split_start + chunk_size,
  cur_kv_seq_len)\<close>, an iteration of the loop for a split with \<open>split_end \<le> split_start\<close>
  returns the state it was given: \<^verbatim>\<open>e_sum\<close>, \<^verbatim>\<open>e_max\<close> and \<^verbatim>\<open>acc\<close> are unchanged and
  nothing is added to the lists of loaded offsets. The result is the same for any other
  content of \<^verbatim>\<open>Mid_O\<close> and \<^verbatim>\<open>Mid_lse\<close>, poisoned entries included.
\<close>

theorem empty_split_skipped:
  assumes "0 \<le> split_kv_id" and "split_kv_id < NUM_KV_SPLITS"
    and "chunk_size = max mgc \<lceil>real_of_int cur_kv_seq_len / real_of_int NUM_KV_SPLITS\<rceil>"
    and "split_start = chunk_size * split_kv_id"
    and "split_end = min (split_start + chunk_size) cur_kv_seq_len"
    and "split_end \<le> split_start"
  shows "stage2_split Mid_O Mid_lse stride_mid_os NUM_KV_SPLITS Lv mgc cur_kv_seq_len mask_d offs_v
           offs_logic split_kv_id st = st
    \<and> stage2_split Mid_O' Mid_lse' stride_mid_os NUM_KV_SPLITS Lv mgc cur_kv_seq_len mask_d offs_v
           offs_logic split_kv_id st = st"
proof -
  have N: "0 < NUM_KV_SPLITS" using assms(1,2) by simp
  have "kv_len_per_split mgc cur_kv_seq_len NUM_KV_SPLITS = chunk_size"
    using assms(3) by (simp add: kv_len_per_split_def cdiv_ceiling [OF N])
  then have "split_kv_end mgc cur_kv_seq_len NUM_KV_SPLITS split_kv_id
      \<le> split_kv_start mgc cur_kv_seq_len NUM_KV_SPLITS split_kv_id"
    using assms(4,5,6) by (simp add: split_kv_start_def split_kv_end_def)
  then show ?thesis by (simp add: stage2_split_empty)
qed

text \<open>
  21 keys in 16 splits with a minimum chunk of 16: split 2 would start at 32 and is
  skipped, although both tensors hold only NaN.
\<close>

theorem empty_split_skipped_witness:
  "stage2_split (\<lambda>a. NaN) (\<lambda>a. NaN) 16 16 2 16 21 [True, True] [0, 1] 0 2
     \<lparr>e_sum = Fin 1, e_max = Fin 0, acc = [Fin 1, Fin 2], loaded_Mid_O = [0, 1], loaded_Mid_lse = [0]\<rparr>
   = \<lparr>e_sum = Fin 1, e_max = Fin 0, acc = [Fin 1, Fin 2], loaded_Mid_O = [0, 1], loaded_Mid_lse = [0]\<rparr>"
proof -
  have c: "(16::int) = max 16 \<lceil>real_of_int 21 / real_of_int 16\<rceil>" by simp
  have e: "(21::int) = min (32 + 16) 21" by simp
  from empty_split_skipped [of 2 16 16 16 21 32 21, OF _ _ c _ e]
  show ?thesis by simp
qed

text \<open>
  Claim C9, amended. For a sequence with no keys the kernel has no special case: every
  split is skipped, nothing is loaded, \<^verbatim>\<open>e_sum\<close> stays \<open>0\<close> and \<^verbatim>\<open>acc\<close> stays the zero vector,
  and every lane the program stores holds \<open>0 / 0\<close>, which is NaN.
\<close>

theorem stage2_zero_length_nan:
  assumes "qo_indptr cur_batch + cur_qo_offs \<le> qo_indptr (cur_batch + 1)"
    and "kv_indptr (cur_batch + 1) - kv_indptr cur_batch = 0"
  shows "stage2_reduce Mid_O Mid_lse stride_mid_ob stride_mid_oh stride_mid_os NUM_KV_SPLITS BLOCK_DV
           Lv mgc (qo_indptr cur_batch + cur_qo_offs) cur_head 0
         = \<lparr>e_sum = Fin 0, e_max = NegInf, acc = map (\<lambda>d. Fin 0) [0..BLOCK_DV - 1],
            loaded_Mid_O = [], loaded_Mid_lse = []\<rparr>
    \<and> (\<exists>r. fwd_kernel_stage2_asm Mid_O Mid_lse Out qo_indptr kv_indptr stride_mid_ob stride_mid_oh
              stride_mid_os stride_obs stride_oh bs nheads max_seqlen_q NUM_KV_SPLITS BLOCK_DV Lv
              mgc cur_batch cur_head cur_qo_offs = Some r
          \<and> loads_Mid_O r = [] \<and> loads_Mid_lse r = []
          \<and> (\<forall>d \<in> set [0..BLOCK_DV - 1]. d < Lv \<longrightarrow>
                out_mem r ((qo_indptr cur_batch + cur_qo_offs) * stride_obs + cur_head * stride_oh + d)
                  = fp_div (Fin 0) (Fin 0)
                \<and> fp_div (Fin 0) (Fin 0) = NaN))"
proof -
  have kv: "kv_indptr (cur_batch + 1) = kv_indptr cur_batch" using assms(2) by simp
  from kernel_zero_len [OF assms(1) kv, where Mid_O=Mid_O and Mid_lse=Mid_lse and smob=stride_mid_ob
      and smoh=stride_mid_oh and smos=stride_mid_os and N=NUM_KV_SPLITS and BD=BLOCK_DV and Lv=Lv
      and mgc=mgc and h=cur_head and Out=Out and sobs=stride_obs and soh=stride_oh
      and bs=bs and nh=nheads and msq=max_seqlen_q]
  show ?thesis by (auto simp: stage2_reduce_zero_len inf_of_sign_def)
qed

text \<open>A sequence without keys, four splits, two lanes: both lanes are NaN.\<close>

theorem stage2_zero_length_nan_witness:
  "\<exists>r. fwd_kernel_stage2_asm (\<lambda>a. Fin 5) (\<lambda>a. Fin 0) (\<lambda>a. Fin 9) (\<lambda>i. if i = 0 then 0 else 1)
         (\<lambda>i. 0) 4 1 1 2 2 1 1 1 4 2 2 16 0 0 0 = Some r
       \<and> loads_Mid_O r = [] \<and> loads_Mid_lse r = []
       \<and> out_mem r 0 = NaN \<and> out_mem r 1 = NaN"
  using stage2_zero_length_nan [of "\<lambda>i. if i = 0 then 0 else 1" 0 0 "\<lambda>i. 0" "\<lambda>a. Fin 5" "\<lambda>a. Fin 0"
      4 1 1 4 2 2 16 0 "\<lambda>a. Fin 9" 2 2 1 1 1]
  by (auto simp: upto_rec1)

text \<open>
  Claim C9 as stated: the second sequence of this batch has no keys, and the value stored
  for its query row 3 is NaN, not a number.
\<close>

theorem stage2_zero_length_counterexample:
  "e_sum (stage2_reduce (\<lambda>a. Fin 1) (\<lambda>a. Fin 0) 2 1 1 2 1 1 16 3 0 0) = Fin 0
   \<and> map_option (\<lambda>r. out_mem r 3)
        (fwd_kernel_stage2_asm (\<lambda>a. Fin 1) (\<lambda>a. Fin 0) (\<lambda>a. Fin 9)
           (\<lambda>i. if i \<le> 0 then 0 else if i = 1 then 3 else 4) (\<lambda>i. if i \<le> 0 then 0 else 5)
           2 1 1 1 1 2 1 3 2 1 1 16 1 0 0) = Some NaN
   \<and> (\<forall>y. NaN \<noteq> Fin y)"
  by (simp add: fwd_kernel_stage2_asm_def stage2_reduce_def stage2_split_def split_kv_start_def
      split_kv_end_def kv_len_per_split_def cdiv_def tl_store_def loaded_lanes_def inf_of_sign_def
      upto_rec1 upt_0_2 Let_def)

subsection \<open>The decode entry point\<close>

text \<open>\<^verbatim>\<open>BLOCK_DV\<close> covers every lane of the value vector.\<close>

lemma power_of_2_from_ge: "0 < p \<Longrightarrow> n \<le> power_of_2_from p n"
proof (induction p n rule: power_of_2_from.induct)
  case (1 p n)
  show ?case
  proof (cases "n \<le> p")
    case True
    then show ?thesis by (subst power_of_2_from.simps) simp
  next
    case False
    with 1 have "n \<le> power_of_2_from (2 * p) n" by simp
    then show ?thesis using False 1(2) by (subst power_of_2_from.simps) simp
  qed
qed

lemma next_power_of_2_ge: "n \<le> next_power_of_2 n"
  by (simp add: next_power_of_2_def power_of_2_from_ge)

lemma next_power_of_2_examples:
  "next_power_of_2 0 = 0" "next_power_of_2 1 = 1" "next_power_of_2 3 = 4"
  "next_power_of_2 128 = 128" "next_power_of_2 512 = 512"
  by (simp_all add: next_power_of_2_def power_of_2_from.simps)


lemma torch_empty_ok:
  "\<forall>d \<in> set sh. 0 \<le> d \<Longrightarrow>
   torch_empty w sh = (w\<lparr>next_buf := Suc (next_buf w)\<rparr>, Inr \<lparr>buf = next_buf w, shape = map nat sh\<rparr>)"
  by (auto simp: torch_empty_def)

lemma torch_empty_cases:
  "torch_empty w sh = (w', r) \<Longrightarrow>
   (r = Inl RuntimeError \<and> w' = w)
   \<or> (r = Inr \<lparr>buf = next_buf w, shape = map nat sh\<rparr> \<and> w' = w\<lparr>next_buf := Suc (next_buf w)\<rparr>
        \<and> (\<forall>d \<in> set sh. 0 \<le> d))"
  by (auto simp: torch_empty_def split: if_splits)

lemma get_meta_param_nhead:
  "get_meta_param cu_num num_kv_splits bs total_kv nhead max_seqlen_q = Inr (n, mgc) \<Longrightarrow>
   nhead = 16 \<or> nhead = 128"
  by (auto simp: get_meta_param_def get_mgc_cases split: sum.splits if_splits)



text \<open>The direct path and the stage-2 path of the decode entry point.\<close>

lemma decode_logits_direct:
  "nhead = 16 \<or> nhead = 128 \<Longrightarrow> \<not> (max_seqlen_q = 1 \<and> nhead = 16) \<Longrightarrow>
   decode_logits w out total_s nhead v_head_dim max_seqlen_q 1
     = (w, Inr \<lparr>buf = buf out, shape = [total_s, 1, nhead, v_head_dim]\<rparr>)"
  by (auto simp: decode_logits_def view_def)

lemma decode_logits_scratch:
  "nhead = 16 \<or> nhead = 128 \<Longrightarrow> \<not> (n = 1 \<and> \<not> (max_seqlen_q = 1 \<and> nhead = 16)) \<Longrightarrow> 0 \<le> n \<Longrightarrow>
   decode_logits w out total_s nhead v_head_dim max_seqlen_q n
     = (w\<lparr>next_buf := Suc (next_buf w)\<rparr>,
        Inr \<lparr>buf = next_buf w, shape = [total_s, nat n, nhead, v_head_dim]\<rparr>)"
  by (auto simp: decode_logits_def torch_empty_def)

lemma decode_logits_negative:
  "nhead = 16 \<or> nhead = 128 \<Longrightarrow> n < 0 \<Longrightarrow>
   decode_logits w out total_s nhead v_head_dim max_seqlen_q n = (w, Inl RuntimeError)"
  by (auto simp: decode_logits_def torch_empty_def)

lemma decode_stages_direct:
  "\<not> (max_seqlen_q = 1 \<and> nhead = 16) \<Longrightarrow>
   decode_stages stage1_asm_fwd w q kv_buffer out qo_indptr kv_indptr kv_indices kv_last_page_lens
       max_seqlen_q sm_scale total_s nhead v_head_dim bs 1 mgc logits
     = (call_stage1 stage1_asm_fwd (w\<lparr>next_buf := Suc (next_buf w)\<rparr>) q kv_buffer qo_indptr kv_indptr
          kv_indices kv_last_page_lens max_seqlen_q sm_scale logits
          \<lparr>buf = next_buf w, shape = [total_s, 1, nhead, 1]\<rparr>,
        Inr (\<lparr>buf = buf logits, shape = [total_s, nhead, v_head_dim]\<rparr>,
             \<lparr>buf = next_buf w, shape = [total_s, 1, nhead, 1]\<rparr>))"
  by (auto simp: decode_stages_def torch_empty_def view_def Let_def)


lemma decode_logits_cases:
  "decode_logits w out total_s nhead v_head_dim max_seqlen_q n = (w0, r) \<Longrightarrow>
   nhead = 16 \<or> nhead = 128 \<Longrightarrow>
   (r = Inl RuntimeError \<and> n < 0 \<and> w0 = w)
   \<or> (n = 1 \<and> \<not> (max_seqlen_q = 1 \<and> nhead = 16) \<and> w0 = w
        \<and> r = Inr \<lparr>buf = buf out, shape = [total_s, 1, nhead, v_head_dim]\<rparr>)
   \<or> (\<not> (n = 1 \<and> \<not> (max_seqlen_q = 1 \<and> nhead = 16)) \<and> 0 \<le> n
        \<and> w0 = w\<lparr>next_buf := Suc (next_buf w)\<rparr>
        \<and> r = Inr \<lparr>buf = next_buf w, shape = [total_s, nat n, nhead, v_head_dim]\<rparr>)"
proof -
  assume a: "decode_logits w out total_s nhead v_head_dim max_seqlen_q n = (w0, r)"
    and h: "nhead = 16 \<or> nhead = 128"
  consider "n < 0" | "n = 1 \<and> \<not> (max_seqlen_q = 1 \<and> nhead = 16)"
    | "\<not> (n = 1 \<and> \<not> (max_seqlen_q = 1 \<and> nhead = 16)) \<and> 0 \<le> n" by linarith
  then show ?thesis
  proof cases
    case 1
    then show ?thesis using a decode_logits_negative [OF h 1, of w out total_s v_head_dim max_seqlen_q]
      by simp
  next
    case 2
    then show ?thesis
      using a decode_logits_direct [OF h, of max_seqlen_q w out total_s v_head_dim] by simp
  next
    case 3
    then show ?thesis
      using a decode_logits_scratch [OF h, of n max_seqlen_q w out total_s v_head_dim] by simp
  qed
qed

lemma decode_stages_negative:
  "n < 0 \<Longrightarrow>
   decode_stages stage1_asm_fwd w q kv_buffer out qo_indptr kv_indptr kv_indices kv_last_page_lens
       max_seqlen_q sm_scale total_s nhead v_head_dim bs n mgc logits = (w, Inl RuntimeError)"
  by (simp add: decode_stages_def torch_empty_def)

lemma decode_unfold:
  assumes "logit_cap \<le> 0"
    and "shape kv_buffer = [num_page, page_size, nhead_kv, qk_head_dim]"
    and "sm_scale = None \<longrightarrow> qk_head_dim \<noteq> 0"
    and "shape out = [total_s, nhead, v_head_dim]"
    and "get_meta_param cu_num num_kv_splits (int (shape0 qo_indptr) - 1) (int (shape0 kv_indices))
           (int nhead) max_seqlen_q = Inr (n, mgc)"
  shows "mla_decode_fwd cu_num stage1_asm_fwd w q kv_buffer out qo_indptr kv_indptr kv_indices
           kv_last_page_lens max_seqlen_q sm_scale logit_cap num_kv_splits
     = (case decode_logits w out total_s nhead v_head_dim max_seqlen_q n of
          (w0, Inl e) \<Rightarrow> (w0, Inl e)
        | (w0, Inr logits) \<Rightarrow>
            decode_stages stage1_asm_fwd w0 q kv_buffer out qo_indptr kv_indptr kv_indices kv_last_page_lens
              max_seqlen_q (case sm_scale of None \<Rightarrow> 1 / sqrt (real qk_head_dim) | Some s \<Rightarrow> s)
              total_s nhead v_head_dim (int (shape0 qo_indptr) - 1) n mgc logits)"
  using assms
  by (cases sm_scale)
    (auto simp: mla_decode_fwd_def py_truediv_def Let_def split: prod.splits sum.splits)


lemma fp_mul_one: "fp_mul (Fin 1) t = t"
  by (cases t) (simp_all add: inf_of_sign_def)

lemma fp_add_zero: "fp_add (Fin 0) t = t"
  by (cases t) simp_all

lemma fp_div_one: "fp_div t (Fin 1) = t"
  by (cases t) (simp_all add: inf_of_sign_def)

lemma stage2_reduce_one_split:
  assumes "0 < len" and "Mid_lse (cur_qo * smob + h * smoh) = Fin l"
  shows "e_sum (stage2_reduce Mid_O Mid_lse smob smoh smos 1 BD Lv mgc cur_qo h len) = Fin 1
    \<and> acc (stage2_reduce Mid_O Mid_lse smob smoh smos 1 BD Lv mgc cur_qo h len)
        = map (\<lambda>d. if d < Lv then Mid_O ((cur_qo * smob + h * smoh) * Lv + d) else Fin 0) [0..BD - 1]"
proof -
  have "0 < kv_len_per_split mgc len 1" using assms(1) by (simp add: kv_len_per_split_def cdiv_def)
  then have ne: "split_kv_start mgc len 1 0 < split_kv_end mgc len 1 0"
    using assms(1) by (simp add: split_kv_start_def split_kv_end_def)
  show ?thesis using ne assms(2)
    by (simp add: stage2_reduce_def stage2_split_def Let_def tl_load_map comp_def fp_sub_def
        map2_map_map fp_mul_one fp_add_zero)
qed

lemma kernel_one_split:
  assumes guard: "qo b + off \<le> qo (b + 1)"
    and len: "0 < kv (b + 1) - kv b"
    and lse: "Mid_lse ((qo b + off) * smob + h * smoh) = Fin l"
  shows "\<exists>r. fwd_kernel_stage2_asm Mid_O Mid_lse Out qo kv smob smoh smos sobs soh bs nh msq 1 BD Lv mgc b h off = Some r
     \<and> (\<forall>d \<in> set [0..BD - 1]. d < Lv \<longrightarrow>
           out_mem r ((qo b + off) * sobs + h * soh + d)
             = Mid_O (((qo b + off) * smob + h * smoh) * Lv + d))"
proof -
  from kernel_Some [OF guard, where Mid_O=Mid_O and Mid_lse=Mid_lse and smob=smob and smoh=smoh
      and smos=smos and N=1 and BD=BD and Lv=Lv and mgc=mgc and h=h and kv=kv and Out=Out
      and sobs=sobs and soh=soh and bs=bs and nh=nh and msq=msq]
  obtain r where r: "fwd_kernel_stage2_asm Mid_O Mid_lse Out qo kv smob smoh smos sobs soh bs nh msq 1 BD Lv mgc b h off = Some r"
    and lanes: "\<forall>d \<in> set [0..BD - 1]. d < Lv \<longrightarrow>
           out_mem r ((qo b + off) * sobs + h * soh + d)
             = fp_div (acc (stage2_reduce Mid_O Mid_lse smob smoh smos 1 BD Lv mgc (qo b + off) h (kv (b + 1) - kv b)) ! nat d)
                 (e_sum (stage2_reduce Mid_O Mid_lse smob smoh smos 1 BD Lv mgc (qo b + off) h (kv (b + 1) - kv b)))"
    by blast
  note one = stage2_reduce_one_split [where Mid_lse=Mid_lse and cur_qo="qo b + off" and smob=smob
      and h=h and smoh=smoh and l=l and Mid_O=Mid_O and smos=smos and BD=BD and Lv=Lv and mgc=mgc,
      OF len lse]
  have "out_mem r ((qo b + off) * sobs + h * soh + d) = Mid_O (((qo b + off) * smob + h * smoh) * Lv + d)"
    if d: "d \<in> set [0..BD - 1]" "d < Lv" for d
  proof -
    have "[0..BD - 1] ! nat d = d" "nat d < length [0..BD - 1]" using d(1) by (simp_all add: nth_upto)
    then show ?thesis using lanes d one by (simp add: fp_div_one)
  qed
  then show ?thesis using r by blast
qed

lemma decode_direct_eq:
  assumes "logit_cap \<le> 0"
    and "shape kv_buffer = [num_page, page_size, nhead_kv, qk_head_dim]"
    and "sm_scale = None \<longrightarrow> qk_head_dim \<noteq> 0"
    and "shape out = [total_s, nhead, v_head_dim]"
    and "get_meta_param cu_num num_kv_splits (int (shape0 qo_indptr) - 1) (int (shape0 kv_indices))
           (int nhead) max_seqlen_q = Inr (1, mgc)"
    and "\<not> (max_seqlen_q = 1 \<and> nhead = 16)"
  shows "mla_decode_fwd cu_num stage1_asm_fwd w q kv_buffer out qo_indptr kv_indptr kv_indices
           kv_last_page_lens max_seqlen_q sm_scale logit_cap num_kv_splits
       = (call_stage1 stage1_asm_fwd (w\<lparr>next_buf := Suc (next_buf w)\<rparr>) q kv_buffer qo_indptr kv_indptr
            kv_indices kv_last_page_lens max_seqlen_q
            (case sm_scale of None \<Rightarrow> 1 / sqrt (real qk_head_dim) | Some s \<Rightarrow> s)
            \<lparr>buf = buf out, shape = [total_s, 1, nhead, v_head_dim]\<rparr>
            \<lparr>buf = next_buf w, shape = [total_s, 1, nhead, 1]\<rparr>,
          Inr (\<lparr>buf = buf out, shape = [total_s, nhead, v_head_dim]\<rparr>,
               \<lparr>buf = next_buf w, shape = [total_s, 1, nhead, 1]\<rparr>))"
proof -
  have nh: "int nhead = 16 \<or> int nhead = 128" using assms(5) by (rule get_meta_param_nhead)
  then have nh': "nhead = 16 \<or> nhead = 128" by auto
  show ?thesis
    unfolding decode_unfold [OF assms(1-5)] decode_logits_direct [OF nh' assms(6)]
    by (simp add: decode_stages_direct [OF assms(6)])
qed

text \<open>
  Claim C4, amended. On a call that passes the checks of lines 134 to 145, with one
  split and not the case of one query token and 16 heads, stage 1 is called with
  \<^verbatim>\<open>logits\<close> a view of the caller's output buffer, the only buffer allocated is
  \<^verbatim>\<open>attn_lse\<close>, the world after the call is the world stage 1 left (stage 2 does not
  run), and the pair returned is the caller's buffer under the shape of \<^verbatim>\<open>o\<close> and
  \<^verbatim>\<open>attn_lse\<close>. Running the stage-2 kernel with one split over partial results gives
  back the partial output, lane by lane, for every program that passes the guard, when
  the sequence has at least one key and the partial log-sum-exp is finite.
\<close>

theorem decode_direct_path:
  assumes "logit_cap \<le> 0"
    and "shape kv_buffer = [num_page, page_size, nhead_kv, qk_head_dim]"
    and "sm_scale = None \<longrightarrow> qk_head_dim \<noteq> 0"
    and "shape out = [total_s, nhead, v_head_dim]"
    and "get_meta_param cu_num num_kv_splits (int (shape0 qo_indptr) - 1) (int (shape0 kv_indices))
           (int nhead) max_seqlen_q = Inr (1, mgc)"
    and "\<not> (max_seqlen_q = 1 \<and> nhead = 16)"
  shows "mla_decode_fwd cu_num stage1_asm_fwd w q kv_buffer out qo_indptr kv_indptr kv_indices
           kv_last_page_lens max_seqlen_q sm_scale logit_cap num_kv_splits
       = (call_stage1 stage1_asm_fwd (w\<lparr>next_buf := Suc (next_buf w)\<rparr>) q kv_buffer qo_indptr kv_indptr
            kv_indices kv_last_page_lens max_seqlen_q
            (case sm_scale of None \<Rightarrow> 1 / sqrt (real qk_head_dim) | Some s \<Rightarrow> s)
            \<lparr>buf = buf out, shape = [total_s, 1, nhead, v_head_dim]\<rparr>
            \<lparr>buf = next_buf w, shape = [total_s, 1, nhead, 1]\<rparr>,
          Inr (\<lparr>buf = buf out, shape = [total_s, nhead, v_head_dim]\<rparr>,
               \<lparr>buf = next_buf w, shape = [total_s, 1, nhead, 1]\<rparr>))
    \<and> (qo b + off \<le> qo (b + 1) \<and> 0 < kv (b + 1) - kv b
         \<and> Mid_lse ((qo b + off) * stride_mid_ob + h * stride_mid_oh) = Fin l \<longrightarrow>
        (\<exists>r. fwd_kernel_stage2_asm Mid_O Mid_lse Out' qo kv stride_mid_ob stride_mid_oh stride_mid_os
                stride_obs stride_oh bs' nheads max_seqlen_q' 1 BLOCK_DV Lv mgc' b h off = Some r
           \<and> (\<forall>d \<in> set [0..BLOCK_DV - 1]. d < Lv \<longrightarrow>
                 out_mem r ((qo b + off) * stride_obs + h * stride_oh + d)
                   = Mid_O (((qo b + off) * stride_mid_ob + h * stride_mid_oh) * Lv + d))))"
proof (intro conjI impI)
  show "mla_decode_fwd cu_num stage1_asm_fwd w q kv_buffer out qo_indptr kv_indptr kv_indices
           kv_last_page_lens max_seqlen_q sm_scale logit_cap num_kv_splits
       = (call_stage1 stage1_asm_fwd (w\<lparr>next_buf := Suc (next_buf w)\<rparr>) q kv_buffer qo_indptr kv_indptr
            kv_indices kv_last_page_lens max_seqlen_q
            (case sm_scale of None \<Rightarrow> 1 / sqrt (real qk_head_dim) | Some s \<Rightarrow> s)
            \<lparr>buf = buf out, shape = [total_s, 1, nhead, v_head_dim]\<rparr>
            \<lparr>buf = next_buf w, shape = [total_s, 1, nhead, 1]\<rparr>,
          Inr (\<lparr>buf = buf out, shape = [total_s, nhead, v_head_dim]\<rparr>,
               \<lparr>buf = next_buf w, shape = [total_s, 1, nhead, 1]\<rparr>))"
    using assms by (rule decode_direct_eq)
next
  assume "qo b + off \<le> qo (b + 1) \<and> 0 < kv (b + 1) - kv b
         \<and> Mid_lse ((qo b + off) * stride_mid_ob + h * stride_mid_oh) = Fin l"
  then show "\<exists>r. fwd_kernel_stage2_asm Mid_O Mid_lse Out' qo kv stride_mid_ob stride_mid_oh stride_mid_os
                stride_obs stride_oh bs' nheads max_seqlen_q' 1 BLOCK_DV Lv mgc' b h off = Some r
           \<and> (\<forall>d \<in> set [0..BLOCK_DV - 1]. d < Lv \<longrightarrow>
                 out_mem r ((qo b + off) * stride_obs + h * stride_oh + d)
                   = Mid_O (((qo b + off) * stride_mid_ob + h * stride_mid_oh) * Lv + d))"
    using kernel_one_split [where qo=qo and b=b and off=off and kv=kv and Mid_lse=Mid_lse
        and smob=stride_mid_ob and h=h and smoh=stride_mid_oh and l=l and Mid_O=Mid_O and Out=Out'
        and smos=stride_mid_os and sobs=stride_obs and soh=stride_oh and bs=bs' and nh=nheads
        and msq=max_seqlen_q' and BD=BLOCK_DV and Lv=Lv and mgc=mgc']
    by blast
qed

lemma get_meta_param_Some_128: "get_meta_param cu (Some n) bs total_kv 128 msq = Inr (n, 16)"
  by (simp add: get_meta_param_def resolve_num_kv_splits_def get_mgc_cases)

text \<open>One sequence of 40 keys, 128 heads, one split.\<close>

theorem decode_direct_path_witness:
  "\<exists>w'. mla_decode_fwd 80 (\<lambda>hp q kvb qo kv ki kl msq sc lg ls. (\<lambda>a. Fin 1, \<lambda>a. Fin 0))
          \<lparr>heap = \<lambda>b a. Fin 7, next_buf = 3\<rparr>
          \<lparr>buf = 0, shape = [1, 128, 4]\<rparr> \<lparr>buf = 1, shape = [64, 1, 1, 4]\<rparr>
          \<lparr>buf = 2, shape = [1, 128, 2]\<rparr>
          \<lparr>elems = \<lambda>i. if i \<le> 0 then 0 else 1, shape0 = 2\<rparr>
          \<lparr>elems = \<lambda>i. if i \<le> 0 then 0 else 40, shape0 = 2\<rparr>
          \<lparr>elems = \<lambda>i. i, shape0 = 40\<rparr> \<lparr>elems = \<lambda>i. 1, shape0 = 1\<rparr>
          1 (Some 1) 0 (Some 1)
        = (w', Inr (\<lparr>buf = 2, shape = [1, 128, 2]\<rparr>, \<lparr>buf = 3, shape = [1, 1, 128, 1]\<rparr>))
      \<and> next_buf w' = 4 \<and> heap w' 2 0 = Fin 1
      \<and> (\<exists>r. fwd_kernel_stage2_asm (heap w' 2) (heap w' 3) (\<lambda>a. Fin 7)
                (\<lambda>i. if i \<le> 0 then 0 else 1) (\<lambda>i. if i \<le> 0 then 0 else 40)
                128 1 128 256 2 1 128 1 1 2 2 16 0 0 0 = Some r
            \<and> out_mem r 0 = heap w' 2 0)"
proof -
  let ?w = "\<lparr>heap = \<lambda>(b::nat) (a::int). Fin 7, next_buf = 3\<rparr>"
  let ?qo = "\<lparr>elems = \<lambda>i::int. if i \<le> 0 then 0 else (1::int), shape0 = 2\<rparr>"
  let ?ki = "\<lparr>elems = \<lambda>i::int. i, shape0 = 40\<rparr>"
  have g: "get_meta_param 80 (Some 1) (int (shape0 ?qo) - 1) (int (shape0 ?ki)) (int 128) 1 = Inr (1, 16)"
    by (simp add: get_meta_param_Some_128)
  have l: "(0::real) \<le> 0" by simp
  note t = decode_direct_path [where logit_cap=0 and kv_buffer="\<lparr>buf = 1, shape = [64, 1, 1, 4]\<rparr>"
      and sm_scale="Some 1" and out="\<lparr>buf = 2, shape = [1, 128, 2]\<rparr>" and cu_num=80
      and num_kv_splits="Some 1" and qo_indptr="?qo" and kv_indices="?ki" and nhead=128
      and max_seqlen_q=1 and mgc=16 and w="?w"
      and stage1_asm_fwd="\<lambda>hp q kvb qo kv ki kl msq sc lg ls. (\<lambda>a. Fin 1, \<lambda>a. Fin 0)"
      and q="\<lparr>buf = 0, shape = [1, 128, 4]\<rparr>"
      and kv_indptr="\<lparr>elems = \<lambda>i. if i \<le> 0 then 0 else 40, shape0 = 2\<rparr>"
      and kv_last_page_lens="\<lparr>elems = \<lambda>i. 1, shape0 = 1\<rparr>"
      and qo="\<lambda>i. if i \<le> 0 then 0 else 1" and kv="\<lambda>i. if i \<le> 0 then 0 else 40"
      and b=0 and off=0 and h=0 and Mid_lse="\<lambda>a. Fin 0" and Mid_O="\<lambda>a. Fin 1" and l=0
      and stride_mid_ob=128 and stride_mid_oh=1 and stride_mid_os=128 and stride_obs=256
      and stride_oh=2 and BLOCK_DV=2 and Lv=2 and Out'="\<lambda>a. Fin 7" and bs'=1 and nheads=128
      and max_seqlen_q'=1 and mgc'=16, OF l _ _ _ g]
  from t show ?thesis by (auto simp: call_stage1_def upto_rec1)
qed

text \<open>
  Claim C4 as stated includes the sequence with no keys: the direct path returns what
  stage 1 wrote, here \<open>1\<close>, and stage 2 with one split over the same partial results
  stores NaN.
\<close>

theorem decode_direct_path_zero_length_counterexample:
  "(\<exists>w'. mla_decode_fwd 80 (\<lambda>hp q kvb qo kv ki kl msq sc lg ls. (\<lambda>a. Fin 1, \<lambda>a. Fin 0))
          \<lparr>heap = \<lambda>b a. Fin 7, next_buf = 3\<rparr>
          \<lparr>buf = 0, shape = [1, 128, 4]\<rparr> \<lparr>buf = 1, shape = [64, 1, 1, 4]\<rparr>
          \<lparr>buf = 2, shape = [1, 128, 2]\<rparr>
          \<lparr>elems = \<lambda>i. if i \<le> 0 then 0 else 1, shape0 = 2\<rparr>
          \<lparr>elems = \<lambda>i. 0, shape0 = 2\<rparr>
          \<lparr>elems = \<lambda>i. 0, shape0 = 0\<rparr> \<lparr>elems = \<lambda>i. 1, shape0 = 1\<rparr>
          1 (Some 1) 0 (Some 1)
        = (w', Inr (\<lparr>buf = 2, shape = [1, 128, 2]\<rparr>, \<lparr>buf = 3, shape = [1, 1, 128, 1]\<rparr>))
      \<and> heap w' 2 0 = Fin 1 \<and> heap w' 2 = (\<lambda>a. Fin 1) \<and> heap w' 3 = (\<lambda>a. Fin 0))
   \<and> map_option (\<lambda>r. out_mem r 0)
        (fwd_kernel_stage2_asm (\<lambda>a. Fin 1) (\<lambda>a. Fin 0) (\<lambda>a. Fin 7)
           (\<lambda>i. if i \<le> 0 then 0 else 1) (\<lambda>i. 0) 128 1 128 256 2 1 128 1 1 2 2 16 0 0 0)
      = Some NaN
   \<and> NaN \<noteq> Fin 1"
  by (simp add: mla_decode_fwd_def get_meta_param_Some_128 decode_logits_def decode_stages_def
      torch_empty_def view_def call_stage1_def fwd_kernel_stage2_asm_def stage2_reduce_def
      stage2_split_def split_kv_start_def split_kv_end_def kv_len_per_split_def cdiv_def
      tl_store_def loaded_lanes_def inf_of_sign_def upto_rec1 Let_def)







subsection \<open>Failures of the entry points\<close>




text \<open>
  Claim C10, amended. Every call of the prefill entry point with \<open>logit_cap \<le> 0\<close> that
  omits \<^verbatim>\<open>sm_scale\<close> raises \<^verbatim>\<open>UnboundLocalError\<close>: the default reads \<^verbatim>\<open>qk_head_dim\<close>
  before its assignment. The world is unchanged, so the kernel has not been called.
\<close>

theorem prefill_default_scale_unbound:
  "logit_cap \<le> 0 \<Longrightarrow>
   mla_prefill_fwd prefill_asm_fwd w q kv_buffer out qo_indptr kv_indptr kv_indices
       kv_last_page_lens max_seqlen_q None logit_cap num_kv_splits
     = (w, Inl UnboundLocalError)"
  by (simp add: mla_prefill_fwd_def)

text \<open>A call without \<^verbatim>\<open>sm_scale\<close> and with the default \<open>logit_cap = 0\<close>.\<close>

theorem prefill_default_scale_unbound_witness:
  "mla_prefill_fwd (\<lambda>hp q kvb qo kv ki kl msq sc lg ls. (\<lambda>a. Fin 1, \<lambda>a. Fin 0))
      \<lparr>heap = \<lambda>b a. Fin 7, next_buf = 3\<rparr>
      \<lparr>buf = 0, shape = [1, 128, 4]\<rparr> \<lparr>buf = 1, shape = [64, 1, 1, 4]\<rparr>
      \<lparr>buf = 2, shape = [1, 128, 2]\<rparr>
      \<lparr>elems = \<lambda>i. if i \<le> 0 then 0 else 1, shape0 = 2\<rparr>
      \<lparr>elems = \<lambda>i. if i \<le> 0 then 0 else 40, shape0 = 2\<rparr>
      \<lparr>elems = \<lambda>i. i, shape0 = 40\<rparr> \<lparr>elems = \<lambda>i. 1, shape0 = 1\<rparr>
      1 None 0 None
    = (\<lparr>heap = \<lambda>b a. Fin 7, next_buf = 3\<rparr>, Inl UnboundLocalError)"
proof -
  have l: "(0::real) \<le> 0" by simp
  show ?thesis by (rule prefill_default_scale_unbound [OF l])
qed

text \<open>
  Claim C10 as stated: with \<open>logit_cap = 1\<close> the assertion of line 224 fails first.
\<close>

theorem prefill_logit_cap_first_counterexample:
  "mla_prefill_fwd (\<lambda>hp q kvb qo kv ki kl msq sc lg ls. (\<lambda>a. Fin 1, \<lambda>a. Fin 0))
      \<lparr>heap = \<lambda>b a. Fin 7, next_buf = 3\<rparr>
      \<lparr>buf = 0, shape = [1, 128, 4]\<rparr> \<lparr>buf = 1, shape = [64, 1, 1, 4]\<rparr>
      \<lparr>buf = 2, shape = [1, 128, 2]\<rparr>
      \<lparr>elems = \<lambda>i. if i \<le> 0 then 0 else 1, shape0 = 2\<rparr>
      \<lparr>elems = \<lambda>i. if i \<le> 0 then 0 else 40, shape0 = 2\<rparr>
      \<lparr>elems = \<lambda>i. i, shape0 = 40\<rparr> \<lparr>elems = \<lambda>i. 1, shape0 = 1\<rparr>
      1 None 1 None
    = (\<lparr>heap = \<lambda>b a. Fin 7, next_buf = 3\<rparr>, Inl (LogitCapNotSupported 1))
   \<and> LogitCapNotSupported 1 \<noteq> UnboundLocalError"
  by (simp add: mla_prefill_fwd_def)

text \<open>
  Claim C7 as stated: for an empty batch without a given split count, the division of
  line 89 raises before the head count is looked at.
\<close>

theorem get_meta_param_empty_batch_counterexample:
  "get_meta_param 80 None 0 0 7 1 = Inl ZeroDivisionError
   \<and> \<not> unsupported_configuration ZeroDivisionError"
  by (simp add: get_meta_param_def resolve_num_kv_splits_def py_int_truediv_def)

end
